theory Spec2Isabelle
  imports Complex_Main "HOL-Library.Word"
begin

section \<open>Numbers\<close>

text \<open>
  Payoffs, utilities and scores are Python and numpy double-precision numbers. A value
  is NaN, an infinity or the real number a finite double stands for (the two zeros are
  one value). Comparisons of doubles are exact and are defined below. The arithmetic of
  the doubles rounds, saturates and overflows: it is not defined here but taken as a
  parameter, a record \<open>arith\<close> of operations, and every property of the program is
  stated over the values these operations return, whatever they are.
\<close>

datatype fl = NaN | MInf | Fin real | PInf

record arith =
  f_add :: "fl \<Rightarrow> fl \<Rightarrow> fl"
  f_sub :: "fl \<Rightarrow> fl \<Rightarrow> fl"
  f_mul :: "fl \<Rightarrow> fl \<Rightarrow> fl"
  f_div :: "fl \<Rightarrow> fl \<Rightarrow> fl"
  f_exp :: "fl \<Rightarrow> fl"
  f_log :: "fl \<Rightarrow> fl"

text \<open>
  One arithmetic, for evaluating the program on examples: the operations on exact reals,
  with the special values of the doubles. It is the arithmetic of the doubles wherever
  these do not round, as on the sums, differences, products and halves of the small
  integers of the examples; of a logarithm the examples read the sign only.
\<close>

fun fl_isneg :: "fl \<Rightarrow> bool" where
  "fl_isneg MInf = True"
| "fl_isneg (Fin a) = (a < 0)"
| "fl_isneg _ = False"

fun fl_neg :: "fl \<Rightarrow> fl" where
  "fl_neg NaN = NaN"
| "fl_neg MInf = PInf"
| "fl_neg PInf = MInf"
| "fl_neg (Fin a) = Fin (- a)"

fun fl_add :: "fl \<Rightarrow> fl \<Rightarrow> fl" where
  "fl_add (Fin a) (Fin b) = Fin (a + b)"
| "fl_add NaN _ = NaN"
| "fl_add _ NaN = NaN"
| "fl_add PInf MInf = NaN"
| "fl_add MInf PInf = NaN"
| "fl_add PInf _ = PInf"
| "fl_add _ PInf = PInf"
| "fl_add MInf _ = MInf"
| "fl_add _ MInf = MInf"

definition fl_sub :: "fl \<Rightarrow> fl \<Rightarrow> fl" where
  "fl_sub x y = fl_add x (fl_neg y)"

fun fl_mul :: "fl \<Rightarrow> fl \<Rightarrow> fl" where
  "fl_mul (Fin a) (Fin b) = Fin (a * b)"
| "fl_mul NaN _ = NaN"
| "fl_mul _ NaN = NaN"
| "fl_mul x y =
     (if x = Fin 0 \<or> y = Fin 0 then NaN
      else if fl_isneg x = fl_isneg y then PInf else MInf)"

text \<open>Exact division: a zero divisor gives an infinity or NaN.\<close>

fun fl_div :: "fl \<Rightarrow> fl \<Rightarrow> fl" where
  "fl_div (Fin a) (Fin b) =
     (if b = 0 then (if a = 0 then NaN else if 0 < a then PInf else MInf)
      else Fin (a / b))"
| "fl_div NaN _ = NaN"
| "fl_div _ NaN = NaN"
| "fl_div (Fin a) _ = Fin 0"
| "fl_div x (Fin b) = (if fl_isneg x = (b < 0) then PInf else MInf)"
| "fl_div _ _ = NaN"

fun fl_exp :: "fl \<Rightarrow> fl" where
  "fl_exp NaN = NaN"
| "fl_exp MInf = Fin 0"
| "fl_exp PInf = PInf"
| "fl_exp (Fin a) = Fin (exp a)"

text \<open>The exact logarithm: minus infinity at zero, NaN below zero.\<close>

fun fl_log :: "fl \<Rightarrow> fl" where
  "fl_log NaN = NaN"
| "fl_log MInf = NaN"
| "fl_log PInf = PInf"
| "fl_log (Fin a) = (if a < 0 then NaN else if a = 0 then MInf else Fin (ln a))"

definition exact :: arith where
  "exact = \<lparr>f_add = fl_add, f_sub = fl_sub, f_mul = fl_mul, f_div = fl_div,
             f_exp = fl_exp, f_log = fl_log\<rparr>"

text \<open>The comparisons of doubles. Comparisons with NaN are false.\<close>

fun fl_less :: "fl \<Rightarrow> fl \<Rightarrow> bool" where
  "fl_less (Fin a) (Fin b) = (a < b)"
| "fl_less NaN _ = False"
| "fl_less _ NaN = False"
| "fl_less _ MInf = False"
| "fl_less MInf _ = True"
| "fl_less PInf _ = False"
| "fl_less _ PInf = True"

fun fl_le :: "fl \<Rightarrow> fl \<Rightarrow> bool" where
  "fl_le (Fin a) (Fin b) = (a \<le> b)"
| "fl_le NaN _ = False"
| "fl_le _ NaN = False"
| "fl_le MInf _ = True"
| "fl_le _ PInf = True"
| "fl_le _ _ = False"

section \<open>Python exceptions and indexing\<close>

datatype pyexn =
  IndexError | ValueError | ZeroDivisionError | UnboundLocalError | OtherError string

definition ebind :: "pyexn + 'a \<Rightarrow> ('a \<Rightarrow> pyexn + 'b) \<Rightarrow> pyexn + 'b" where
  "ebind m f = (case m of Inl e \<Rightarrow> Inl e | Inr x \<Rightarrow> f x)"

text \<open>A list comprehension whose body may raise: the first exception ends it.\<close>

fun emap :: "('a \<Rightarrow> pyexn + 'b) \<Rightarrow> 'a list \<Rightarrow> pyexn + 'b list" where
  "emap f [] = Inr []"
| "emap f (x # xs) =
     (case f x of Inl e \<Rightarrow> Inl e
      | Inr y \<Rightarrow> (case emap f xs of Inl e \<Rightarrow> Inl e | Inr ys \<Rightarrow> Inr (y # ys)))"

text \<open>\<^verbatim>\<open>xs[i]\<close> on a Python list: a negative index counts from the end.\<close>

definition py_index :: "'a list \<Rightarrow> int \<Rightarrow> pyexn + 'a" where
  "py_index xs i =
     (let n = int (length xs) in
      if 0 \<le> i \<and> i < n then Inr (xs ! nat i)
      else if - n \<le> i \<and> i < 0 then Inr (xs ! nat (i + n))
      else Inl IndexError)"

text \<open>
  Division of Python floats: a zero divisor raises; the division of numpy floats never
  does.
\<close>

definition py_div :: "arith \<Rightarrow> fl \<Rightarrow> fl \<Rightarrow> pyexn + fl" where
  "py_div ar x y = (if y = Fin 0 then Inl ZeroDivisionError else Inr (f_div ar x y))"

section \<open>The game (src/hunt/game.py)\<close>

record decision =
  strategy :: int
  design :: int

definition Decision :: "int \<Rightarrow> int \<Rightarrow> decision" where
  "Decision s d = \<lparr>strategy = s, design = d\<rparr>"

record result =
  my_decision :: decision
  my_payoff :: fl
  their_decision :: decision
  their_payoff :: fl

definition Result :: "decision \<Rightarrow> fl \<Rightarrow> decision \<Rightarrow> fl \<Rightarrow> result" where
  "Result md mp td tp =
     \<lparr>my_decision = md, my_payoff = mp, their_decision = td, their_payoff = tp\<rparr>"

text \<open>\<^verbatim>\<open>DesignGame.designs\<close>: a list of matrices indexed by own and other strategy.\<close>

type_synonym designs = "fl list list list"

text \<open>
  An agent: its display name, its attributes \<open>self\<close>, and its two methods. A method
  returns the attributes it leaves behind and either the exception it raised or its
  value.
\<close>

record 's player =
  name :: string
  self :: 's
  get_decision :: "'s \<Rightarrow> 's \<times> (pyexn + decision)"
  report_result :: "'s \<Rightarrow> result \<Rightarrow> 's \<times> (pyexn + unit)"

text \<open>\<^verbatim>\<open>class Player\<close>: always \<^verbatim>\<open>Decision()\<close>, results are ignored.\<close>

definition Player :: "designs \<Rightarrow> string \<Rightarrow> designs player" where
  "Player g nm =
     \<lparr>name = nm, self = g,
      get_decision = (\<lambda>s. (s, Inr (Decision 0 0))),
      report_result = (\<lambda>s r. (s, Inr ()))\<rparr>"

definition get_payoff :: "designs \<Rightarrow> decision \<Rightarrow> decision \<Rightarrow> pyexn + fl" where
  "get_payoff D my_d their_d =
     ebind (py_index D (design my_d)) (\<lambda>m.
     ebind (py_index m (strategy my_d)) (\<lambda>row.
     py_index row (strategy their_d)))"

text \<open>
  The test of \<^verbatim>\<open>play\<close>:
  \<^verbatim>\<open>d.strategy not in [0, 1] or d.design not in range(len(self.designs))\<close>.
\<close>

definition invalid :: "designs \<Rightarrow> decision \<Rightarrow> bool" where
  "invalid D d \<longleftrightarrow>
     strategy d \<notin> set [0, 1] \<or> design d \<notin> set (map int [0..<length D])"

datatype side = P1 | P2

text \<open>The calls \<^verbatim>\<open>play\<close> makes on the two agents, in order.\<close>

datatype call = GetDecision side | ReportResult side result

text \<open>
  How \<^verbatim>\<open>play\<close> fails: with the \<^verbatim>\<open>InvalidDecisionError\<close> it raises itself, holding the
  player and the decision, or with an exception of an agent's method or of
  \<^verbatim>\<open>get_payoff\<close>. An agent's method raises exceptions of its own only, never an
  \<^verbatim>\<open>InvalidDecisionError\<close>.
\<close>

datatype 's failure = InvalidDecisionError "'s player" decision | Raised pyexn

record 's played =
  agent_1 :: "'s player"
  agent_2 :: "'s player"
  calls :: "call list"
  outcome :: "'s failure + result"

definition played :: "'s player \<Rightarrow> 's player \<Rightarrow> call list \<Rightarrow> 's failure + result \<Rightarrow> 's played" where
  "played a b cs out = \<lparr>agent_1 = a, agent_2 = b, calls = cs, outcome = out\<rparr>"

text \<open>
  \<^verbatim>\<open>DesignGame.play\<close>, the two agents being distinct objects. Every exit returns the
  agents as the calls made so far have left them. The body is cut in three: the two
  \<^verbatim>\<open>report_result\<close> calls, the second agent's decision and the payoffs, the first
  agent's decision.
\<close>

definition play_report ::
  "'s player \<Rightarrow> 's player \<Rightarrow> call list \<Rightarrow> decision \<Rightarrow> fl \<Rightarrow> decision \<Rightarrow> fl \<Rightarrow> 's played" where
  "play_report p1 p2 c2 decision_1 payoff_1 decision_2 payoff_2 =
     (let res_1 = Result decision_1 payoff_1 decision_2 payoff_2;
          res_2 = Result decision_2 payoff_2 decision_1 payoff_1 in
      (case report_result p1 (self p1) res_1 of (s1', q1) \<Rightarrow>
       (let p1' = p1\<lparr>self := s1'\<rparr>; c3 = c2 @ [ReportResult P1 res_1] in
        (case q1 of
           Inl e \<Rightarrow> played p1' p2 c3 (Inl (Raised e))
         | Inr u1 \<Rightarrow>
           (case report_result p2 (self p2) res_2 of (s2', q2) \<Rightarrow>
            (let p2' = p2\<lparr>self := s2'\<rparr>; c4 = c3 @ [ReportResult P2 res_2] in
             (case q2 of
                Inl e \<Rightarrow> played p1' p2' c4 (Inl (Raised e))
              | Inr u2 \<Rightarrow>
                played p1' p2' c4
                  (Inr (Result decision_1 payoff_1 decision_2 payoff_2)))))))))"

definition play_second ::
  "designs \<Rightarrow> 's player \<Rightarrow> call list \<Rightarrow> decision \<Rightarrow> 's player \<Rightarrow> 's played" where
  "play_second D p1 c1 decision_1 player_2 =
     (case get_decision player_2 (self player_2) of (s2, r2) \<Rightarrow>
      (let p2 = player_2\<lparr>self := s2\<rparr>; c2 = c1 @ [GetDecision P2] in
       (case r2 of
          Inl e \<Rightarrow> played p1 p2 c2 (Inl (Raised e))
        | Inr decision_2 \<Rightarrow>
          (if invalid D decision_2
           then played p1 p2 c2 (Inl (InvalidDecisionError p2 decision_2))
           else
             (case get_payoff D decision_1 decision_2 of
                Inl e \<Rightarrow> played p1 p2 c2 (Inl (Raised e))
              | Inr payoff_1 \<Rightarrow>
                (case get_payoff D decision_2 decision_1 of
                   Inl e \<Rightarrow> played p1 p2 c2 (Inl (Raised e))
                 | Inr payoff_2 \<Rightarrow>
                   play_report p1 p2 c2 decision_1 payoff_1 decision_2 payoff_2))))))"

definition play :: "designs \<Rightarrow> 's player \<Rightarrow> 's player \<Rightarrow> 's played" where
  "play D player_1 player_2 =
     (case get_decision player_1 (self player_1) of (s1, r1) \<Rightarrow>
      (let p1 = player_1\<lparr>self := s1\<rparr>; c1 = [GetDecision P1] in
       (case r1 of
          Inl e \<Rightarrow> played p1 player_2 c1 (Inl (Raised e))
        | Inr decision_1 \<Rightarrow>
          (if invalid D decision_1
           then played p1 player_2 c1 (Inl (InvalidDecisionError p1 decision_1))
           else play_second D p1 c1 decision_1 player_2))))"

text \<open>
  A subclass for tests, overriding \<^verbatim>\<open>get_decision\<close>: the agent \<open>p\<close>, except that it
  always returns the decision \<open>d\<close>.
\<close>

definition FixedPlayer :: "'s player \<Rightarrow> decision \<Rightarrow> 's player" where
  "FixedPlayer p d = p\<lparr>get_decision := (\<lambda>s. (s, Inr d))\<rparr>"

text \<open>Calling \<^verbatim>\<open>report_result\<close> on an agent with each result of a list in turn.\<close>

fun report_all :: "'s player \<Rightarrow> result list \<Rightarrow> 's player" where
  "report_all p [] = p"
| "report_all p (r # rs) =
     report_all (p\<lparr>self := fst (report_result p (self p) r)\<rparr>) rs"

text \<open>The data model's invariant: every design is a 2 x 2 matrix.\<close>

definition wf_designs :: "designs \<Rightarrow> bool" where
  "wf_designs D \<longleftrightarrow> list_all (\<lambda>m. length m = 2 \<and> list_all (\<lambda>row. length row = 2) m) D"

definition valid :: "designs \<Rightarrow> decision \<Rightarrow> bool" where
  "valid D d \<longleftrightarrow>
     (strategy d = 0 \<or> strategy d = 1) \<and> 0 \<le> design d \<and> design d < int (length D)"

section \<open>numpy and scipy functions used by the agents\<close>

text \<open>
  Modelled from the spec and the libraries' documentation: numpy and scipy are not part
  of the repository. \<^verbatim>\<open>np.argmax\<close> returns the first index of the maximum, and the first
  NaN when there is one; it raises on an empty sequence.
\<close>

fun argmax_scan :: "fl \<Rightarrow> nat \<Rightarrow> nat \<Rightarrow> fl list \<Rightarrow> nat" where
  "argmax_scan mp mi i [] = mi"
| "argmax_scan mp mi i (x # xs) =
     (if mp = NaN then mi
      else if fl_le x mp then argmax_scan mp mi (Suc i) xs
      else argmax_scan x i (Suc i) xs)"

definition np_argmax :: "fl list \<Rightarrow> pyexn + nat" where
  "np_argmax xs =
     (case xs of [] \<Rightarrow> Inl ValueError | x # ys \<Rightarrow> Inr (argmax_scan x 0 1 ys))"

text \<open>
  \<^verbatim>\<open>np.nanargmax\<close>: NaN entries count as minus infinity; an empty or all-NaN sequence
  raises.
\<close>

definition nan_to_minf :: "fl \<Rightarrow> fl" where
  "nan_to_minf x = (if x = NaN then MInf else x)"

definition np_nanargmax :: "fl list \<Rightarrow> pyexn + nat" where
  "np_nanargmax xs =
     (if list_all (\<lambda>x. x = NaN) xs then Inl ValueError
      else np_argmax (map nan_to_minf xs))"

text \<open>
  \<^verbatim>\<open>np.nanmin\<close>: the minimum of the entries that are not NaN, NaN (with a warning) when
  there is none; an empty sequence raises.
\<close>

definition fl_fmin :: "fl \<Rightarrow> fl \<Rightarrow> fl" where
  "fl_fmin x y = (if x = NaN then y else if y = NaN then x else if fl_le x y then x else y)"

definition np_nanmin :: "fl list \<Rightarrow> pyexn + fl" where
  "np_nanmin xs = (case xs of [] \<Rightarrow> Inl ValueError | x # ys \<Rightarrow> Inr (foldl fl_fmin x ys))"

text \<open>
  \<^verbatim>\<open>scipy.stats.beta(a, b).mean()\<close>: the posterior mean \<open>a / (a + b)\<close> of the spec, NaN
  when a parameter is not positive.
\<close>

definition beta_mean :: "int \<Rightarrow> int \<Rightarrow> fl" where
  "beta_mean a b = (if 0 < a \<and> 0 < b then Fin (real_of_int a / real_of_int (a + b)) else NaN)"

section \<open>The Risk-Dominance agent (src/players\_new.py)\<close>

text \<open>
  \<^verbatim>\<open>get_utility\<close>, the same in both agents. With risk aversion 0 the value stays the
  Python number of the design list; otherwise \<^verbatim>\<open>np.exp\<close> makes it a numpy float.
\<close>

definition get_utility :: "arith \<Rightarrow> real \<Rightarrow> fl \<Rightarrow> fl" where
  "get_utility ar ra v =
     (if ra = 0 then v
      else f_div ar (f_sub ar (Fin 1) (f_exp ar (f_mul ar (Fin (- ra)) v))) (Fin ra))"

text \<open>
  The quotient inside \<^verbatim>\<open>get_risk_dominance\<close>: a division of Python numbers when the
  utilities are the payoffs themselves, of numpy floats otherwise.
\<close>

definition utility_div :: "arith \<Rightarrow> real \<Rightarrow> fl \<Rightarrow> fl \<Rightarrow> pyexn + fl" where
  "utility_div ar ra x y = (if ra = 0 then py_div ar x y else Inr (f_div ar x y))"

record rd_attrs =
  rd_game :: designs
  rd_risk_aversion :: real
  their_prior_decision :: "decision option"

text \<open>
  One of the two logarithms of \<^verbatim>\<open>get_risk_dominance\<close> (the branch taken, after
  \<^verbatim>\<open>if False\<close>): they differ only in the collaborative design \<open>cd\<close>.
\<close>

definition log_ratio :: "arith \<Rightarrow> rd_attrs \<Rightarrow> int \<Rightarrow> int \<Rightarrow> pyexn + fl" where
  "log_ratio ar s cd independent_design =
     (let D = rd_game s; u = get_utility ar (rd_risk_aversion s) in
      ebind (get_payoff D (Decision 0 independent_design) (Decision 0 0)) (\<lambda>a.
      ebind (get_payoff D (Decision 1 cd) (Decision 0 0)) (\<lambda>b.
      ebind (get_payoff D (Decision 1 cd) (Decision 1 0)) (\<lambda>c.
      ebind (get_payoff D (Decision 0 independent_design) (Decision 1 0)) (\<lambda>d.
      ebind (utility_div ar (rd_risk_aversion s) (f_sub ar (u a) (u b)) (f_sub ar (u c) (u d)))
        (\<lambda>q.
      Inr (f_log ar q)))))))"

definition get_risk_dominance :: "arith \<Rightarrow> rd_attrs \<Rightarrow> int \<Rightarrow> int \<Rightarrow> pyexn + fl" where
  "get_risk_dominance ar s dsg independent_design =
     ebind (log_ratio ar s dsg independent_design) (\<lambda>la.
     ebind (log_ratio ar s
              (case their_prior_decision s of Some prior \<Rightarrow> design prior | None \<Rightarrow> dsg)
              independent_design) (\<lambda>lb.
     Inr (f_add ar (f_mul ar (Fin 0.5) la) (f_mul ar (Fin 0.5) lb))))"

definition rd_independent_value :: "arith \<Rightarrow> rd_attrs \<Rightarrow> pyexn + fl list" where
  "rd_independent_value ar s =
     emap (\<lambda>d. ebind (get_payoff (rd_game s) (Decision 0 d) (Decision 0 0))
                  (\<lambda>v. Inr (get_utility ar (rd_risk_aversion s) v)))
       (map int [0..<length (rd_game s)])"

definition rd_risk_dominance :: "arith \<Rightarrow> rd_attrs \<Rightarrow> nat \<Rightarrow> pyexn + fl list" where
  "rd_risk_dominance ar s independent_design =
     emap (\<lambda>d. get_risk_dominance ar s d (int independent_design))
       (map int [0..<length (rd_game s)])"

definition rd_collaborative_value :: "arith \<Rightarrow> rd_attrs \<Rightarrow> pyexn + fl list" where
  "rd_collaborative_value ar s =
     emap (\<lambda>d. ebind (get_payoff (rd_game s) (Decision 1 d) (Decision 1 0))
                  (\<lambda>v. Inr (get_utility ar (rd_risk_aversion s) v)))
       (map int [0..<length (rd_game s)])"

text \<open>
  \<^verbatim>\<open>collaborative_value * (risk_dominance < 0)\<close>: each value times 1 or 0. These
  products do not round: a double times 1 is itself, a finite double times 0 is zero,
  an infinity or NaN times 0 is NaN.
\<close>

definition mask_times :: "fl \<Rightarrow> bool \<Rightarrow> fl" where
  "mask_times v b = (if b then v else (case v of Fin a \<Rightarrow> Fin 0 | _ \<Rightarrow> NaN))"

definition masked :: "fl list \<Rightarrow> fl list \<Rightarrow> fl list" where
  "masked collaborative_value risk_dominance =
     map2 (\<lambda>v r. mask_times v (fl_less r (Fin 0))) collaborative_value risk_dominance"

definition rd_get_decision :: "arith \<Rightarrow> rd_attrs \<Rightarrow> pyexn + decision" where
  "rd_get_decision ar s =
     ebind (rd_independent_value ar s) (\<lambda>independent_value.
     ebind (np_nanargmax independent_value) (\<lambda>independent_design.
     ebind (rd_risk_dominance ar s independent_design) (\<lambda>risk_dominance.
     ebind (rd_collaborative_value ar s) (\<lambda>collaborative_value.
     ebind (np_argmax (masked collaborative_value risk_dominance)) (\<lambda>collaborative_design.
     ebind (np_nanmin risk_dominance) (\<lambda>lowest.
     Inr (if fl_less lowest (Fin 0) then Decision 1 (int collaborative_design)
          else Decision 0 (int independent_design))))))))"

definition rd_report_result :: "rd_attrs \<Rightarrow> result \<Rightarrow> rd_attrs \<times> (pyexn + unit)" where
  "rd_report_result s r = (s\<lparr>their_prior_decision := Some (their_decision r)\<rparr>, Inr ())"

definition RiskAwareRDplayer :: "arith \<Rightarrow> designs \<Rightarrow> string \<Rightarrow> real \<Rightarrow> rd_attrs player" where
  "RiskAwareRDplayer ar g nm ra =
     \<lparr>name = nm,
      self = \<lparr>rd_game = g, rd_risk_aversion = ra, their_prior_decision = None\<rparr>,
      get_decision = (\<lambda>s. (s, rd_get_decision ar s)),
      report_result = rd_report_result\<rparr>"

section \<open>The Expected-Utility agent (src/players\_new.py)\<close>

text \<open>
  \<^verbatim>\<open>strategy_prior\<close> is a numpy array of two 64-bit integers,
  \<^verbatim>\<open>[prior_no_collab, prior_collab]\<close>; its additions wrap around.
\<close>

record eu_attrs =
  eu_game :: designs
  eu_risk_aversion :: real
  strategy_prior :: "64 word list"

definition eu_report_result :: "eu_attrs \<Rightarrow> result \<Rightarrow> eu_attrs \<times> (pyexn + unit)" where
  "eu_report_result s r =
     (let i = strategy (their_decision r); sp = strategy_prior s; n = int (length sp) in
      if 0 \<le> i \<and> i < n
      then (s\<lparr>strategy_prior := sp[nat i := sp ! nat i + 1]\<rparr>, Inr ())
      else if - n \<le> i \<and> i < 0
      then (s\<lparr>strategy_prior := sp[nat (i + n) := sp ! nat (i + n) + 1]\<rparr>, Inr ())
      else (s, Inl IndexError))"

text \<open>
  The collaboration probability: the posterior mean \<open>a / (a + b)\<close> of the spec, which
  scipy returns as a double. What the agent computes from it is left to the arithmetic.
\<close>

definition p_collab :: "eu_attrs \<Rightarrow> fl" where
  "p_collab s = beta_mean (sint (strategy_prior s ! 1)) (sint (strategy_prior s ! 0))"

text \<open>The expected utility of playing strategy \<open>st\<close> with design \<open>d\<close>.\<close>

definition expected_value :: "arith \<Rightarrow> eu_attrs \<Rightarrow> int \<Rightarrow> int \<Rightarrow> pyexn + fl" where
  "expected_value ar s st d =
     (let u = get_utility ar (eu_risk_aversion s); p = p_collab s in
      ebind (get_payoff (eu_game s) (Decision st d) (Decision 1 0)) (\<lambda>a.
      ebind (get_payoff (eu_game s) (Decision st d) (Decision 0 0)) (\<lambda>b.
      Inr (f_add ar (f_mul ar (u a) p) (f_mul ar (u b) (f_sub ar (Fin 1) p))))))"

definition independent_expected_value :: "arith \<Rightarrow> eu_attrs \<Rightarrow> pyexn + fl list" where
  "independent_expected_value ar s =
     emap (expected_value ar s 0) (map int [0..<length (eu_game s)])"

definition collab_expected_value :: "arith \<Rightarrow> eu_attrs \<Rightarrow> pyexn + fl list" where
  "collab_expected_value ar s =
     emap (expected_value ar s 1) (map int [0..<length (eu_game s)])"

definition eu_get_decision :: "arith \<Rightarrow> eu_attrs \<Rightarrow> pyexn + decision" where
  "eu_get_decision ar s =
     ebind (independent_expected_value ar s) (\<lambda>iev.
     ebind (np_nanargmax iev) (\<lambda>independent_design.
     ebind (collab_expected_value ar s) (\<lambda>cev.
     ebind (np_argmax cev) (\<lambda>collaborative_design.
     Inr (if list_all (\<lambda>c. fl_less c (iev ! independent_design)) cev
          then Decision 0 (int independent_design)
          else Decision 1 (int collaborative_design))))))"

definition RiskAwareEUplayer ::
  "arith \<Rightarrow> designs \<Rightarrow> string \<Rightarrow> real \<Rightarrow> int \<Rightarrow> int \<Rightarrow> eu_attrs player" where
  "RiskAwareEUplayer ar g nm ra prior_collab prior_no_collab =
     \<lparr>name = nm,
      self = \<lparr>eu_game = g, eu_risk_aversion = ra,
              strategy_prior = [word_of_int prior_no_collab, word_of_int prior_collab]\<rparr>,
      get_decision = (\<lambda>s. (s, eu_get_decision ar s)),
      report_result = eu_report_result\<rparr>"

section \<open>The tournament (src/hunt/tournament.py)\<close>

text \<open>\<^verbatim>\<open>itertools.combinations_with_replacement(xs, 2)\<close>.\<close>

fun combinations_with_replacement :: "'a list \<Rightarrow> ('a \<times> 'a) list" where
  "combinations_with_replacement [] = []"
| "combinations_with_replacement (x # xs) =
     map (Pair x) (x # xs) @ combinations_with_replacement xs"

record player_log =
  log_name :: string
  log_design :: int
  log_strategy :: int
  log_payoff :: fl

record rep_entry =
  rep_game :: nat
  rep_rep :: nat
  rep_player_1 :: player_log
  rep_player_2 :: player_log

text \<open>
  The two kinds of entry of \<^verbatim>\<open>error_results\<close>: game, replicate, the offending
  player's name, design and strategy, the error; or game, replicate, both names,
  the error.
\<close>

datatype 's error_entry =
  DecisionEntry nat nat string int int "'s failure"
| ExceptionEntry nat nat string string "'s failure"

record game_entry =
  entry_game :: nat
  entry_reps :: int
  entry_players :: "(string \<times> fl) list"

text \<open>
  The configuration of a tournament. A player is a constructor, called on a copy of a
  game's designs. The generator is not part of the repository: \<open>rng\<close> lists the
  variates that \<^verbatim>\<open>self.rng.geometric(self.p_rep)\<close> will return, less one (a geometric
  variate is at least 1). Constructors are functions of the designs: they return an
  agent, the same for the same designs, and \<^verbatim>\<open>p_rep\<close> is a probability the generator
  accepts.
\<close>

record 's tournament =
  players :: "(designs \<Rightarrow> 's player) list"
  games :: "designs list"
  num_reps :: "int option"
  rng :: "nat \<Rightarrow> nat"

text \<open>
  What \<^verbatim>\<open>run\<close> writes: the four logs and the result map of the tournament object, the
  number of variates drawn, and the local variables that outlive a loop body
  (\<open>bound\<close> holds \<^verbatim>\<open>player_1\<close> and \<^verbatim>\<open>player_2\<close> once they are assigned).
\<close>

record 's frame =
  error_results :: "'s error_entry list"
  rep_results :: "rep_entry list"
  game_results :: "game_entry list"
  match_results :: "(string \<times> fl) list list"
  results :: "string \<rightharpoonup> fl"
  drawn :: nat
  bound :: "('s player \<times> 's player) option"
  p1_match_score :: fl
  p2_match_score :: fl
  p1_game_score :: fl
  p2_game_score :: fl

definition draw_num_reps :: "'s tournament \<Rightarrow> nat \<Rightarrow> int \<times> nat" where
  "draw_num_reps t k =
     (case num_reps t of None \<Rightarrow> (int (Suc (rng t k)), Suc k) | Some n \<Rightarrow> (n, k))"

text \<open>
  The body of the loop over replicates: the \<^verbatim>\<open>try\<close> block and its two handlers. The
  divisor is not zero inside the loop, so no division raises.
\<close>

definition replicate_step ::
  "arith \<Rightarrow> designs \<Rightarrow> nat \<Rightarrow> int \<Rightarrow> 's player \<times> 's player \<times> 's frame \<Rightarrow> nat
     \<Rightarrow> 's player \<times> 's player \<times> 's frame" where
  "replicate_step ar game g n x rep =
     (case x of (player_1, player_2, f) \<Rightarrow>
      (let r = play game player_1 player_2 in
       (case outcome r of
          Inr res \<Rightarrow>
            (agent_1 r, agent_2 r,
             f\<lparr>rep_results := rep_results f @
                  [\<lparr>rep_game = g, rep_rep = rep,
                    rep_player_1 =
                      \<lparr>log_name = name (agent_1 r), log_design = design (my_decision res),
                       log_strategy = strategy (my_decision res), log_payoff = my_payoff res\<rparr>,
                    rep_player_2 =
                      \<lparr>log_name = name (agent_2 r), log_design = design (their_decision res),
                       log_strategy = strategy (their_decision res),
                       log_payoff = their_payoff res\<rparr>\<rparr>],
               p1_game_score :=
                 f_add ar (p1_game_score f) (f_div ar (my_payoff res) (Fin (real_of_int n))),
               p2_game_score :=
                 f_add ar (p2_game_score f)
                   (f_div ar (their_payoff res) (Fin (real_of_int n)))\<rparr>)
        | Inl (InvalidDecisionError pl dec) \<Rightarrow>
            (agent_1 r, agent_2 r,
             f\<lparr>error_results := error_results f @
                  [DecisionEntry g rep (name pl) (design dec) (strategy dec)
                     (InvalidDecisionError pl dec)]\<rparr>)
        | Inl (Raised e) \<Rightarrow>
            (agent_1 r, agent_2 r,
             f\<lparr>error_results := error_results f @
                  [ExceptionEntry g rep (name (agent_1 r)) (name (agent_2 r)) (Raised e)]\<rparr>))))"

text \<open>The body of the loop over the games of a match.\<close>

definition game_step ::
  "arith \<Rightarrow> 's tournament \<Rightarrow> (designs \<Rightarrow> 's player) \<times> (designs \<Rightarrow> 's player)
     \<Rightarrow> 's frame \<Rightarrow> nat \<times> designs \<Rightarrow> 's frame" where
  "game_step ar t match f0 gg =
     (case gg of (g, game) \<Rightarrow>
      (let f1 = f0\<lparr>p1_game_score := Fin 0, p2_game_score := Fin 0\<rparr>;
           player_1 = fst match game;
           player_2 = snd match game in
       (case draw_num_reps t (drawn f1) of (n, k) \<Rightarrow>
        (case foldl (replicate_step ar game g n) (player_1, player_2, f1\<lparr>drawn := k\<rparr>)
                [0..<nat n] of
           (q1, q2, f2) \<Rightarrow>
           (let f3 = f2\<lparr>bound := Some (q1, q2),
                      game_results := game_results f2 @
                        [\<lparr>entry_game = g, entry_reps = n,
                          entry_players =
                            [(name q1, p1_game_score f2), (name q2, p2_game_score f2)]\<rparr>]\<rparr>
            in f3\<lparr>p1_match_score :=
                    f_add ar (p1_match_score f3)
                      (f_div ar (p1_game_score f3) (Fin (real (length (games t))))),
                  p2_match_score :=
                    f_add ar (p2_match_score f3)
                      (f_div ar (p2_game_score f3) (Fin (real (length (games t)))))\<rparr>)))))"

text \<open>
  \<^verbatim>\<open>self.results.get(key, 0)\<close>, and one of the two assignments to \<^verbatim>\<open>self.results\<close>
  that end a match: the bucket \<open>key\<close> receives the match score, halved when the two
  names are equal, over the number of players.
\<close>

definition bucket :: "(string \<rightharpoonup> fl) \<Rightarrow> string \<Rightarrow> fl" where
  "bucket res key = (case res key of None \<Rightarrow> Fin 0 | Some v \<Rightarrow> v)"

definition credit ::
  "arith \<Rightarrow> (string \<rightharpoonup> fl) \<Rightarrow> string \<Rightarrow> string \<Rightarrow> string \<Rightarrow> fl \<Rightarrow> nat
     \<Rightarrow> (string \<rightharpoonup> fl)" where
  "credit ar res key name_1 name_2 match_score n =
     res(key \<mapsto>
       f_add ar (bucket res key)
         (f_div ar (f_mul ar match_score (if name_1 = name_2 then Fin 0.5 else Fin 1))
            (Fin (real n))))"

text \<open>
  The loop over the games of a match, and the body of the loop over matches. With no
  game the names \<^verbatim>\<open>player_1\<close> and
  \<^verbatim>\<open>player_2\<close> have no value when the match is logged.
\<close>

definition games_loop ::
  "arith \<Rightarrow> 's tournament \<Rightarrow> 's frame
     \<Rightarrow> (designs \<Rightarrow> 's player) \<times> (designs \<Rightarrow> 's player) \<Rightarrow> 's frame" where
  "games_loop ar t f0 match =
     foldl (game_step ar t match) (f0\<lparr>p1_match_score := Fin 0, p2_match_score := Fin 0\<rparr>)
       (enumerate 0 (games t))"

definition match_step ::
  "arith \<Rightarrow> 's tournament \<Rightarrow> 's frame
     \<Rightarrow> (designs \<Rightarrow> 's player) \<times> (designs \<Rightarrow> 's player) \<Rightarrow> pyexn + 's frame" where
  "match_step ar t f0 match =
     (let f1 = games_loop ar t f0 match in
      (case bound f1 of
         None \<Rightarrow> Inl UnboundLocalError
       | Some (player_1, player_2) \<Rightarrow>
         (let f2 = f1\<lparr>match_results := match_results f1 @
                      [[(name player_1, p1_match_score f1),
                        (name player_2, p2_match_score f1)]]\<rparr>;
              f3 = f2\<lparr>results := credit ar (results f2) (name player_1)
                      (name player_1) (name player_2) (p1_match_score f2)
                      (length (players t))\<rparr>
          in Inr (f3\<lparr>results := credit ar (results f3) (name player_2)
                      (name player_1) (name player_2) (p2_match_score f3)
                      (length (players t))\<rparr>))))"

fun match_loop ::
  "arith \<Rightarrow> 's tournament \<Rightarrow> 's frame
     \<Rightarrow> ((designs \<Rightarrow> 's player) \<times> (designs \<Rightarrow> 's player)) list \<Rightarrow> pyexn + 's frame" where
  "match_loop ar t f [] = Inr f"
| "match_loop ar t f (m # ms) =
     (case match_step ar t f m of Inl e \<Rightarrow> Inl e | Inr f' \<Rightarrow> match_loop ar t f' ms)"

definition initial_frame :: "'s frame" where
  "initial_frame =
     \<lparr>error_results = [], rep_results = [], game_results = [], match_results = [],
      results = Map.empty, drawn = 0, bound = None,
      p1_match_score = Fin 0, p2_match_score = Fin 0,
      p1_game_score = Fin 0, p2_game_score = Fin 0\<rparr>"

text \<open>\<^verbatim>\<open>Tournament.run\<close>: the frame it leaves, whose \<open>results\<close> it returns.\<close>

definition run :: "arith \<Rightarrow> 's tournament \<Rightarrow> pyexn + 's frame" where
  "run ar t = match_loop ar t initial_frame (combinations_with_replacement (players t))"

text \<open>What \<^verbatim>\<open>run\<close> returns: \<^verbatim>\<open>self.results\<close>.\<close>

definition run_results :: "arith \<Rightarrow> 's tournament \<Rightarrow> pyexn + (string \<rightharpoonup> fl)" where
  "run_results ar t = (case run ar t of Inl e \<Rightarrow> Inl e | Inr f \<Rightarrow> Inr (results f))"

text \<open>The constructor of a null agent with a given name, as the tournament calls it.\<close>

definition null_player :: "string \<Rightarrow> designs \<Rightarrow> designs player" where
  "null_player nm g = Player g nm"

text \<open>
  The constructor of an Expected-Utility agent with a given name, risk aversion and
  priors, as the tournament calls it (the presets of the source fix these arguments).
\<close>

definition eu_player ::
  "arith \<Rightarrow> string \<Rightarrow> real \<Rightarrow> int \<Rightarrow> int \<Rightarrow> designs \<Rightarrow> eu_attrs player" where
  "eu_player ar nm ra prior_collab prior_no_collab g =
     RiskAwareEUplayer ar g nm ra prior_collab prior_no_collab"

text \<open>What a replicate leaves alone: everything but the two logs and the game scores.\<close>

definition same_match :: "'s frame \<Rightarrow> 's frame \<Rightarrow> bool" where
  "same_match f f' \<longleftrightarrow>
     results f' = results f \<and> bound f' = bound f \<and> drawn f' = drawn f
     \<and> p1_match_score f' = p1_match_score f \<and> p2_match_score f' = p2_match_score f
     \<and> game_results f' = game_results f \<and> match_results f' = match_results f"

section \<open>The selections in the words of the spec\<close>

text \<open>
  The index of the first largest entry of a list without NaN; the plain arg-max, which
  a NaN wins (the first one); the NaN-tolerant arg-max, which reads NaN as minus infinity
  and needs an entry that is not NaN; and the arg-max of the collaborative values
  restricted to the designs whose risk-dominance index is negative, index 0 when there
  is none.
\<close>

definition first_max :: "fl list \<Rightarrow> nat \<Rightarrow> bool" where
  "first_max ys i \<longleftrightarrow>
     i < length ys \<and> (\<forall>j<length ys. fl_le (ys ! j) (ys ! i)) \<and> (\<forall>j<i. fl_less (ys ! j) (ys ! i))"

definition plain_argmax :: "fl list \<Rightarrow> nat \<Rightarrow> bool" where
  "plain_argmax xs i \<longleftrightarrow>
     (if NaN \<in> set xs then i < length xs \<and> xs ! i = NaN \<and> (\<forall>j<i. xs ! j \<noteq> NaN)
      else first_max xs i)"

definition nan_argmax :: "fl list \<Rightarrow> nat \<Rightarrow> bool" where
  "nan_argmax xs i \<longleftrightarrow> (\<exists>x\<in>set xs. x \<noteq> NaN) \<and> first_max (map nan_to_minf xs) i"

definition negative :: "fl \<Rightarrow> bool" where
  "negative r \<longleftrightarrow> fl_less r (Fin 0)"

definition restricted_argmax :: "fl list \<Rightarrow> fl list \<Rightarrow> nat \<Rightarrow> bool" where
  "restricted_argmax cv rd i \<longleftrightarrow>
     (if \<exists>d<length rd. negative (rd ! d)
      then i < length cv \<and> negative (rd ! i)
        \<and> (\<forall>j<length cv. negative (rd ! j) \<longrightarrow> fl_le (cv ! j) (cv ! i))
        \<and> (\<forall>j<i. negative (rd ! j) \<longrightarrow> fl_less (cv ! j) (cv ! i))
      else i = 0)"

definition finite_fl :: "fl \<Rightarrow> bool" where
  "finite_fl x \<longleftrightarrow> (\<exists>a. x = Fin a)"

text \<open>
  The expected utility of strategy \<open>st\<close> with design \<open>d\<close>: the utility against a
  collaborating opponent times the collaboration probability, plus the utility against an
  independent one times the rest.
\<close>

definition expected_utility :: "arith \<Rightarrow> eu_attrs \<Rightarrow> nat \<Rightarrow> nat \<Rightarrow> fl" where
  "expected_utility ar s st d =
     f_add ar
       (f_mul ar (get_utility ar (eu_risk_aversion s) (eu_game s ! d ! st ! 1)) (p_collab s))
       (f_mul ar (get_utility ar (eu_risk_aversion s) (eu_game s ! d ! st ! 0))
          (f_sub ar (Fin 1) (p_collab s)))"

text \<open>
  A running sum as the loops of the tournament form it: \<open>k\<close> additions of \<open>c\<close>, one
  after the other, onto \<open>x\<close>.
\<close>

fun repeat_add :: "arith \<Rightarrow> nat \<Rightarrow> fl \<Rightarrow> fl \<Rightarrow> fl" where
  "repeat_add ar 0 x c = x"
| "repeat_add ar (Suc k) x c = repeat_add ar k (f_add ar x c) c"

text \<open>
  The score of a tournament of \<open>N\<close> null agents of one name, one game with designs
  \<open>[[[3, 0], [5, 1]]]\<close> and \<open>r\<close> replicates, as the loops of \<^verbatim>\<open>run\<close> form it: the game
  score is the sum of \<open>r\<close> times \<open>3 / r\<close>, the match score adds it, over the one game, to
  0, a credit is the match score halved over the number of players, and the bucket
  receives two credits for each of the \<open>N (N + 1) / 2\<close> matches.
\<close>

definition null_game_score :: "arith \<Rightarrow> int \<Rightarrow> fl" where
  "null_game_score ar r = repeat_add ar (nat r) (Fin 0) (f_div ar (Fin 3) (Fin (real_of_int r)))"

definition null_match_score :: "arith \<Rightarrow> int \<Rightarrow> fl" where
  "null_match_score ar r = f_add ar (Fin 0) (f_div ar (null_game_score ar r) (Fin 1))"

definition null_credit :: "arith \<Rightarrow> int \<Rightarrow> nat \<Rightarrow> fl" where
  "null_credit ar r N = f_div ar (f_mul ar (null_match_score ar r) (Fin 0.5)) (Fin (real N))"

definition null_score :: "arith \<Rightarrow> int \<Rightarrow> nat \<Rightarrow> fl" where
  "null_score ar r N = repeat_add ar (N * (N + 1)) (Fin 0) (null_credit ar r N)"

section \<open>Properties of the game\<close>

lemma in_range_iff: "i \<in> set (map int [0..<n]) \<longleftrightarrow> 0 \<le> i \<and> i < int n"
proof
  assume "i \<in> set (map int [0..<n])"
  then show "0 \<le> i \<and> i < int n" by auto
next
  assume "0 \<le> i \<and> i < int n"
  then have "nat i \<in> {0..<n}" and "i = int (nat i)" by auto
  then have "i \<in> int ` {0..<n}" by (rule_tac image_eqI)
  then show "i \<in> set (map int [0..<n])" by simp
qed

lemma invalid_iff: "invalid D d \<longleftrightarrow> \<not> valid D d"
  unfolding invalid_def valid_def in_range_iff by auto

lemma py_index_in_range:
  "0 \<le> i \<Longrightarrow> i < int (length xs) \<Longrightarrow> py_index xs i = Inr (xs ! nat i)"
  by (simp add: py_index_def)

lemma wf_designs_nth:
  assumes "wf_designs D" and "i < length D"
  shows "length (D ! i) = 2" and "j < 2 \<Longrightarrow> length (D ! i ! j) = 2"
proof -
  from assms have m: "length (D ! i) = 2 \<and> list_all (\<lambda>row. length row = 2) (D ! i)"
    by (simp add: wf_designs_def list_all_length)
  then show "length (D ! i) = 2" by simp
  from m show "j < 2 \<Longrightarrow> length (D ! i ! j) = 2"
    by (simp add: list_all_length)
qed

lemma get_payoff_valid:
  assumes "wf_designs D" and "valid D my_d" and "valid D their_d"
  shows "get_payoff D my_d their_d =
           Inr (D ! nat (design my_d) ! nat (strategy my_d) ! nat (strategy their_d))"
proof -
  from assms(2) have d: "0 \<le> design my_d" "design my_d < int (length D)"
    and s: "0 \<le> strategy my_d" "strategy my_d < 2"
    by (auto simp: valid_def)
  from assms(3) have t: "0 \<le> strategy their_d" "strategy their_d < 2"
    by (auto simp: valid_def)
  from d have dn: "nat (design my_d) < length D" by simp
  from s have sn: "nat (strategy my_d) < 2" by simp
  have l1: "length (D ! nat (design my_d)) = 2"
    using wf_designs_nth(1) [OF assms(1) dn] .
  have l2: "length (D ! nat (design my_d) ! nat (strategy my_d)) = 2"
    using wf_designs_nth(2) [OF assms(1) dn sn] .
  show ?thesis
    using d s t l1 l2 by (simp add: get_payoff_def ebind_def py_index_in_range)
qed

text \<open>
  C1. For a well-formed payoff model and valid decisions, \<^verbatim>\<open>get_payoff\<close> returns the
  entry of the design list at the caller's design, the caller's strategy and the
  opponent's strategy; and the opponent's design never changes what it returns.
\<close>

theorem get_payoff_entry:
  assumes "wf_designs D" and "valid D mine" and "valid D theirs"
  shows "get_payoff D mine theirs =
           Inr (D ! nat (design mine) ! nat (strategy mine) ! nat (strategy theirs))
         \<and> get_payoff D mine (theirs\<lparr>design := x\<rparr>) = get_payoff D mine theirs"
  using get_payoff_valid [OF assms] by (simp add: get_payoff_def)

theorem get_payoff_entry_witness:
  "get_payoff [[[Fin 3, Fin 0], [Fin 5, Fin 1]]] (Decision 1 0) (Decision 0 0) = Inr (Fin 5)
   \<and> get_payoff [[[Fin 3, Fin 0], [Fin 5, Fin 1]]] (Decision 1 0) (Decision 0 7) = Inr (Fin 5)"
  using get_payoff_entry [of "[[[Fin 3, Fin 0], [Fin 5, Fin 1]]]" "Decision 1 0" "Decision 0 0" 7]
  by (simp add: wf_designs_def valid_def Decision_def)

lemma play_first_raises:
  assumes "get_decision p1 (self p1) = (s1, Inl e)"
  shows "play D p1 p2 = played (p1\<lparr>self := s1\<rparr>) p2 [GetDecision P1] (Inl (Raised e))"
  using assms by (simp add: play_def Let_def)

lemma play_first_invalid:
  assumes "get_decision p1 (self p1) = (s1, Inr d1)" and "invalid D d1"
  shows "play D p1 p2 = played (p1\<lparr>self := s1\<rparr>) p2 [GetDecision P1]
           (Inl (InvalidDecisionError (p1\<lparr>self := s1\<rparr>) d1))"
  using assms by (simp add: play_def Let_def)

lemma play_first_valid:
  assumes "get_decision p1 (self p1) = (s1, Inr d1)" and "\<not> invalid D d1"
  shows "play D p1 p2 = play_second D (p1\<lparr>self := s1\<rparr>) [GetDecision P1] d1 p2"
  using assms by (simp add: play_def Let_def)

lemma play_second_raises:
  assumes "get_decision p2 (self p2) = (s2, Inl e)"
  shows "play_second D p1 c1 d1 p2 = played p1 (p2\<lparr>self := s2\<rparr>) (c1 @ [GetDecision P2]) (Inl (Raised e))"
  using assms by (simp add: play_second_def Let_def)

lemma play_second_invalid:
  assumes "get_decision p2 (self p2) = (s2, Inr d2)" and "invalid D d2"
  shows "play_second D p1 c1 d1 p2 = played p1 (p2\<lparr>self := s2\<rparr>) (c1 @ [GetDecision P2])
           (Inl (InvalidDecisionError (p2\<lparr>self := s2\<rparr>) d2))"
  using assms by (simp add: play_second_def Let_def)

lemma play_second_valid:
  assumes "get_decision p2 (self p2) = (s2, Inr d2)" and "\<not> invalid D d2"
    and "get_payoff D d1 d2 = Inr a" and "get_payoff D d2 d1 = Inr b"
  shows "play_second D p1 c1 d1 p2 =
           play_report p1 (p2\<lparr>self := s2\<rparr>) (c1 @ [GetDecision P2]) d1 a d2 b"
  using assms by (simp add: play_second_def Let_def)

lemma play_second_payoff_raises:
  assumes "get_decision p2 (self p2) = (s2, Inr d2)" and "\<not> invalid D d2"
    and "get_payoff D d1 d2 = Inl e \<or> (\<exists>a. get_payoff D d1 d2 = Inr a \<and> get_payoff D d2 d1 = Inl e)"
  shows "play_second D p1 c1 d1 p2 = played p1 (p2\<lparr>self := s2\<rparr>) (c1 @ [GetDecision P2]) (Inl (Raised e))"
  using assms by (auto simp add: play_second_def Let_def)

lemma play_report_outcome:
  "(outcome (play_report p1 p2 c2 d1 a d2 b) = Inl (InvalidDecisionError who dec)) = False"
  by (simp add: play_report_def played_def Let_def split: prod.splits sum.splits)

lemma play_second_no_report:
  assumes "outcome (play_second D p1 c1 d1 p2) = Inl (InvalidDecisionError who dec)"
  shows "calls (play_second D p1 c1 d1 p2) = c1 @ [GetDecision P2]"
  using assms
  by (auto simp add: play_second_def played_def Let_def play_report_outcome split: prod.splits sum.splits if_splits)

lemma play_report_ok:
  assumes "report_result p1 (self p1) (Result d1 a d2 b) = (s1', Inr ())"
    and "report_result p2 (self p2) (Result d2 b d1 a) = (s2', Inr ())"
  shows "play_report p1 p2 c2 d1 a d2 b =
           played (p1\<lparr>self := s1'\<rparr>) (p2\<lparr>self := s2'\<rparr>)
             (c2 @ [ReportResult P1 (Result d1 a d2 b), ReportResult P2 (Result d2 b d1 a)])
             (Inr (Result d1 a d2 b))"
  using assms by (simp add: play_report_def Let_def)

text \<open>
  C2. \<^verbatim>\<open>play\<close> fails with \<^verbatim>\<open>InvalidDecisionError\<close> exactly when a decision that an
  agent returned has its strategy outside 0, 1 or its design outside the design list:
  the first agent's, or else (the first being valid) the second agent's. The error
  holds that agent and that decision; the payoffs are not consulted, and no result
  is reported to either agent.
\<close>

theorem play_invalid_decision:
  "(outcome (play D p1 p2) = Inl (InvalidDecisionError who dec) \<longleftrightarrow>
      (\<exists>d1. snd (get_decision p1 (self p1)) = Inr d1 \<and>
         (\<not> valid D d1 \<and> who = p1\<lparr>self := fst (get_decision p1 (self p1))\<rparr> \<and> dec = d1
          \<or> valid D d1 \<and> snd (get_decision p2 (self p2)) = Inr dec \<and> \<not> valid D dec
              \<and> who = p2\<lparr>self := fst (get_decision p2 (self p2))\<rparr>)))
   \<and> (outcome (play D p1 p2) = Inl (InvalidDecisionError who dec) \<longrightarrow>
        (\<forall>sd r. ReportResult sd r \<notin> set (calls (play D p1 p2))))"
proof -
  obtain s1 r1 where g1: "get_decision p1 (self p1) = (s1, r1)" by (cases "get_decision p1 (self p1)")
  obtain s2 r2 where g2: "get_decision p2 (self p2) = (s2, r2)" by (cases "get_decision p2 (self p2)")
  show ?thesis
  proof (cases r1)
    case (Inl e)
    with g1 show ?thesis by (simp add: play_first_raises played_def)
  next
    case (Inr d1)
    note r1 = this
    show ?thesis
    proof (cases "invalid D d1")
      case True
      with g1 r1 show ?thesis
        by (auto simp add: play_first_invalid played_def invalid_iff)
    next
      case False
      note v1 = this
      with g1 r1 have p: "play D p1 p2 = play_second D (p1\<lparr>self := s1\<rparr>) [GetDecision P1] d1 p2"
        by (simp add: play_first_valid)
      show ?thesis
      proof (cases r2)
        case (Inl e)
        with g1 g2 r1 v1 p show ?thesis
          by (simp add: play_second_raises played_def invalid_iff)
      next
        case (Inr d2)
        note r2 = this
        show ?thesis
        proof (cases "invalid D d2")
          case True
          with g1 g2 r1 r2 v1 p show ?thesis
            by (auto simp add: play_second_invalid played_def invalid_iff)
        next
          case False
          have "outcome (play_second D (p1\<lparr>self := s1\<rparr>) [GetDecision P1] d1 p2)
                  \<noteq> Inl (InvalidDecisionError who dec)"
            using g2 r2 False
            by (simp add: play_second_def Let_def played_def play_report_outcome split: sum.splits)
          with g1 g2 r1 r2 v1 p False show ?thesis
            by (auto simp add: invalid_iff)
        qed
      qed
    qed
  qed
qed

theorem play_invalid_decision_witness:
  "outcome (play [[[Fin 3, Fin 0], [Fin 5, Fin 1]]] (Player [[[Fin 3, Fin 0], [Fin 5, Fin 1]]] ''a'') (FixedPlayer (Player [[[Fin 3, Fin 0], [Fin 5, Fin 1]]] ''b'') (Decision 2 0)))
     = Inl (InvalidDecisionError (FixedPlayer (Player [[[Fin 3, Fin 0], [Fin 5, Fin 1]]] ''b'') (Decision 2 0)) (Decision 2 0))
   \<and> calls (play [[[Fin 3, Fin 0], [Fin 5, Fin 1]]] (Player [[[Fin 3, Fin 0], [Fin 5, Fin 1]]] ''a'') (FixedPlayer (Player [[[Fin 3, Fin 0], [Fin 5, Fin 1]]] ''b'') (Decision 2 0)))
     = [GetDecision P1, GetDecision P2]"
  using play_invalid_decision [of "[[[Fin 3, Fin 0], [Fin 5, Fin 1]]]" "Player [[[Fin 3, Fin 0], [Fin 5, Fin 1]]] ''a''"
      "FixedPlayer (Player [[[Fin 3, Fin 0], [Fin 5, Fin 1]]] ''b'') (Decision 2 0)" "FixedPlayer (Player [[[Fin 3, Fin 0], [Fin 5, Fin 1]]] ''b'') (Decision 2 0)" "Decision 2 0"]
  by (simp add: valid_def Decision_def Player_def FixedPlayer_def play_def play_second_def
      played_def invalid_def Let_def)

lemma play_second_agent_1: "agent_1 (play_second D p1 c1 d1 p2) = p1 \<or>
   (\<forall>who dec. outcome (play_second D p1 c1 d1 p2) \<noteq> Inl (InvalidDecisionError who dec))"
  by (simp add: play_second_def Let_def played_def play_report_outcome split: sum.splits prod.splits)

lemma play_second_agent_2:
  "outcome (play_second D p1 c1 d1 p2) = Inl (InvalidDecisionError who dec) \<Longrightarrow>
     agent_2 (play_second D p1 c1 d1 p2) = p2\<lparr>self := fst (get_decision p2 (self p2))\<rparr>
     \<and> agent_1 (play_second D p1 c1 d1 p2) = p1"
  by (simp add: play_second_def Let_def played_def play_report_outcome split: sum.splits prod.splits if_splits)

lemma self_update_idem: "self (p :: 's player) = s \<Longrightarrow> p\<lparr>self := s\<rparr> = p"
  by simp

lemmas rd_eval = rd_get_decision_def rd_independent_value_def rd_risk_dominance_def
  rd_collaborative_value_def get_risk_dominance_def log_ratio_def utility_div_def py_div_def
  get_utility_def get_payoff_def py_index_def ebind_def Decision_def np_nanargmax_def
  np_argmax_def np_nanmin_def nan_to_minf_def masked_def mask_times_def fl_fmin_def
  fl_sub_def exact_def Let_def

lemma rd_example_decision:
  "rd_get_decision exact \<lparr>rd_game = [[[Fin 3, Fin 0], [Fin 5, Fin 1]]], rd_risk_aversion = 0,
      their_prior_decision = pr\<rparr> = Inr (Decision 0 0)"
  if "pr = None \<or> pr = Some (Decision 1 0)"
  using that by (auto simp add: rd_eval)

lemma play_both_valid:
  fixes D :: designs and p1 p2 :: "'s player"
  assumes "wf_designs D"
    and "get_decision p1 (self p1) = (s1, Inr d1)" and "valid D d1"
    and "get_decision p2 (self p2) = (s2, Inr d2)" and "valid D d2"
    and "payoff_1 = D ! nat (design d1) ! nat (strategy d1) ! nat (strategy d2)"
    and "payoff_2 = D ! nat (design d2) ! nat (strategy d2) ! nat (strategy d1)"
    and "report_result p1 s1 (Result d1 payoff_1 d2 payoff_2) = (s1', Inr ())"
    and "report_result p2 s2 (Result d2 payoff_2 d1 payoff_1) = (s2', Inr ())"
  shows "get_payoff D d1 d2 = Inr payoff_1 \<and> get_payoff D d2 d1 = Inr payoff_2
    \<and> play D p1 p2 =
        played (p1\<lparr>self := s1'\<rparr>) (p2\<lparr>self := s2'\<rparr>)
          [GetDecision P1, GetDecision P2,
           ReportResult P1 (Result d1 payoff_1 d2 payoff_2),
           ReportResult P2 (Result d2 payoff_2 d1 payoff_1)]
          (Inr (Result d1 payoff_1 d2 payoff_2))"
proof -
  have a: "get_payoff D d1 d2 = Inr payoff_1"
    using get_payoff_valid [OF assms(1,3,5)] assms(6) by simp
  have b: "get_payoff D d2 d1 = Inr payoff_2"
    using get_payoff_valid [OF assms(1,5,3)] assms(7) by simp
  have "play D p1 p2 = play_second D (p1\<lparr>self := s1\<rparr>) [GetDecision P1] d1 p2"
    using assms(2,3) by (simp add: play_first_valid invalid_iff)
  also have "\<dots> = play_report (p1\<lparr>self := s1\<rparr>) (p2\<lparr>self := s2\<rparr>)
                     ([GetDecision P1] @ [GetDecision P2]) d1 payoff_1 d2 payoff_2"
    using assms(4,5) a b by (simp add: play_second_valid invalid_iff)
  also have "\<dots> = played (p1\<lparr>self := s1'\<rparr>) (p2\<lparr>self := s2'\<rparr>)
          [GetDecision P1, GetDecision P2,
           ReportResult P1 (Result d1 payoff_1 d2 payoff_2),
           ReportResult P2 (Result d2 payoff_2 d1 payoff_1)]
          (Inr (Result d1 payoff_1 d2 payoff_2))"
    using assms(8,9) play_report_ok [of "p1\<lparr>self := s1\<rparr>" d1 payoff_1 d2 payoff_2 s1' "p2\<lparr>self := s2\<rparr>" s2']
    by simp
  finally show ?thesis using a b by simp
qed

text \<open>
  C9. When both agents return valid decisions (the payoff model being well-formed and
  both \<^verbatim>\<open>report_result\<close> calls returning), \<^verbatim>\<open>play\<close> takes each payoff from
  \<^verbatim>\<open>get_payoff\<close>, calls \<^verbatim>\<open>report_result\<close> once on each agent with that agent's own
  decision and payoff before the opponent's, and returns the result of the first
  agent; the agents change by their own four method calls and nothing else.
\<close>

theorem play_success:
  fixes D :: designs and p1 p2 :: "'s player"
  assumes "wf_designs D"
    and "get_decision p1 (self p1) = (s1, Inr d1)" and "valid D d1"
    and "get_decision p2 (self p2) = (s2, Inr d2)" and "valid D d2"
    and "payoff_1 = D ! nat (design d1) ! nat (strategy d1) ! nat (strategy d2)"
    and "payoff_2 = D ! nat (design d2) ! nat (strategy d2) ! nat (strategy d1)"
    and "report_result p1 s1 (Result d1 payoff_1 d2 payoff_2) = (s1', Inr ())"
    and "report_result p2 s2 (Result d2 payoff_2 d1 payoff_1) = (s2', Inr ())"
  shows "get_payoff D d1 d2 = Inr payoff_1 \<and> get_payoff D d2 d1 = Inr payoff_2
    \<and> play D p1 p2 =
        played (p1\<lparr>self := s1'\<rparr>) (p2\<lparr>self := s2'\<rparr>)
          [GetDecision P1, GetDecision P2,
           ReportResult P1 (Result d1 payoff_1 d2 payoff_2),
           ReportResult P2 (Result d2 payoff_2 d1 payoff_1)]
          (Inr (Result d1 payoff_1 d2 payoff_2))"
  using play_both_valid [OF assms] .

theorem play_success_witness:
  "play [[[Fin 3, Fin 0], [Fin 5, Fin 1]]]
     (RiskAwareRDplayer exact [[[Fin 3, Fin 0], [Fin 5, Fin 1]]] ''a'' 0)
     (FixedPlayer (RiskAwareRDplayer exact [[[Fin 3, Fin 0], [Fin 5, Fin 1]]] ''b'' 0) (Decision 1 0)) =
   played
     ((RiskAwareRDplayer exact [[[Fin 3, Fin 0], [Fin 5, Fin 1]]] ''a'' 0)
        \<lparr>self := \<lparr>rd_game = [[[Fin 3, Fin 0], [Fin 5, Fin 1]]], rd_risk_aversion = 0,
                  their_prior_decision = Some (Decision 1 0)\<rparr>\<rparr>)
     ((FixedPlayer (RiskAwareRDplayer exact [[[Fin 3, Fin 0], [Fin 5, Fin 1]]] ''b'' 0) (Decision 1 0))
        \<lparr>self := \<lparr>rd_game = [[[Fin 3, Fin 0], [Fin 5, Fin 1]]], rd_risk_aversion = 0,
                  their_prior_decision = Some (Decision 0 0)\<rparr>\<rparr>)
     [GetDecision P1, GetDecision P2,
      ReportResult P1 (Result (Decision 0 0) (Fin 0) (Decision 1 0) (Fin 5)),
      ReportResult P2 (Result (Decision 1 0) (Fin 5) (Decision 0 0) (Fin 0))]
     (Inr (Result (Decision 0 0) (Fin 0) (Decision 1 0) (Fin 5)))"
proof -
  let ?D = "[[[Fin 3, Fin 0], [Fin 5, Fin 1]]]"
  let ?s = "\<lparr>rd_game = ?D, rd_risk_aversion = 0, their_prior_decision = None\<rparr>"
  let ?A = "RiskAwareRDplayer exact ?D ''a'' 0"
  let ?B = "FixedPlayer (RiskAwareRDplayer exact ?D ''b'' 0) (Decision 1 0)"
  have wf: "wf_designs ?D" by (simp add: wf_designs_def)
  have v1: "valid ?D (Decision 0 0)" and v2: "valid ?D (Decision 1 0)"
    by (simp_all add: valid_def Decision_def)
  have ga: "get_decision ?A (self ?A) = (?s, Inr (Decision 0 0))"
    by (simp add: RiskAwareRDplayer_def rd_example_decision)
  have gb: "get_decision ?B (self ?B) = (?s, Inr (Decision 1 0))"
    by (simp add: FixedPlayer_def RiskAwareRDplayer_def)
  have pa: "Fin 0 = ?D ! nat (design (Decision 0 0)) ! nat (strategy (Decision 0 0))
                      ! nat (strategy (Decision 1 0))"
    and pb: "Fin 5 = ?D ! nat (design (Decision 1 0)) ! nat (strategy (Decision 1 0))
                      ! nat (strategy (Decision 0 0))"
    by (simp_all add: Decision_def)
  have ra: "report_result ?A ?s (Result (Decision 0 0) (Fin 0) (Decision 1 0) (Fin 5)) =
      (?s\<lparr>their_prior_decision := Some (Decision 1 0)\<rparr>, Inr ())"
    by (simp add: RiskAwareRDplayer_def rd_report_result_def Result_def)
  have rb: "report_result ?B ?s (Result (Decision 1 0) (Fin 5) (Decision 0 0) (Fin 0)) =
      (?s\<lparr>their_prior_decision := Some (Decision 0 0)\<rparr>, Inr ())"
    by (simp add: FixedPlayer_def RiskAwareRDplayer_def rd_report_result_def Result_def)
  show ?thesis
    using play_success [OF wf ga v1 gb v2 pa pb ra rb] by simp
qed

text \<open>
  C10. When the first agent's decision is invalid, the second agent is never asked: the
  only call is the first \<^verbatim>\<open>get_decision\<close>. Whenever \<^verbatim>\<open>play\<close> fails with
  \<^verbatim>\<open>InvalidDecisionError\<close>, no \<^verbatim>\<open>report_result\<close> is called, each agent is as its
  own \<^verbatim>\<open>get_decision\<close> left it, and an agent whose \<^verbatim>\<open>get_decision\<close> writes no
  attribute, as those of the Risk-Dominance and Expected-Utility agents, is exactly
  what it was before the call.
\<close>

theorem play_failure_state:
  "(snd (get_decision p1 (self p1)) = Inr d1 \<and> \<not> valid D d1 \<longrightarrow>
      calls (play D p1 p2) = [GetDecision P1] \<and> agent_2 (play D p1 p2) = p2
      \<and> outcome (play D p1 p2) =
          Inl (InvalidDecisionError (p1\<lparr>self := fst (get_decision p1 (self p1))\<rparr>) d1))
   \<and> (outcome (play D p1 p2) = Inl (InvalidDecisionError who dec) \<longrightarrow>
       (\<forall>sd r. ReportResult sd r \<notin> set (calls (play D p1 p2)))
       \<and> agent_1 (play D p1 p2) = p1\<lparr>self := fst (get_decision p1 (self p1))\<rparr>
       \<and> (agent_2 (play D p1 p2) = p2
          \<or> agent_2 (play D p1 p2) = p2\<lparr>self := fst (get_decision p2 (self p2))\<rparr>)
       \<and> ((\<forall>s. fst (get_decision p1 s) = s) \<longrightarrow> agent_1 (play D p1 p2) = p1)
       \<and> ((\<forall>s. fst (get_decision p2 s) = s) \<longrightarrow> agent_2 (play D p1 p2) = p2))
   \<and> (\<forall>s. fst (get_decision (RiskAwareRDplayer ar g nm ra) s) = s)
   \<and> (\<forall>s. fst (get_decision (RiskAwareEUplayer ar' g' nm' ra' a b) s) = s)"
proof -
  obtain s1 r1 where g1: "get_decision p1 (self p1) = (s1, r1)"
    by (cases "get_decision p1 (self p1)")
  have first: "snd (get_decision p1 (self p1)) = Inr d1 \<and> \<not> valid D d1 \<longrightarrow>
      calls (play D p1 p2) = [GetDecision P1] \<and> agent_2 (play D p1 p2) = p2
      \<and> outcome (play D p1 p2) =
          Inl (InvalidDecisionError (p1\<lparr>self := fst (get_decision p1 (self p1))\<rparr>) d1)"
    using g1 by (auto simp add: play_first_invalid invalid_iff played_def)
  have second: "(\<forall>sd r. ReportResult sd r \<notin> set (calls (play D p1 p2)))
       \<and> agent_1 (play D p1 p2) = p1\<lparr>self := fst (get_decision p1 (self p1))\<rparr>
       \<and> (agent_2 (play D p1 p2) = p2
          \<or> agent_2 (play D p1 p2) = p2\<lparr>self := fst (get_decision p2 (self p2))\<rparr>)"
    if inv: "outcome (play D p1 p2) = Inl (InvalidDecisionError who dec)"
  proof (cases r1)
    case (Inl e)
    with g1 inv show ?thesis by (simp add: play_first_raises played_def)
  next
    case (Inr d)
    show ?thesis
    proof (cases "invalid D d")
      case True
      with g1 Inr show ?thesis by (simp add: play_first_invalid played_def)
    next
      case False
      with g1 Inr have p: "play D p1 p2 = play_second D (p1\<lparr>self := s1\<rparr>) [GetDecision P1] d p2"
        by (simp add: play_first_valid)
      from inv p have o: "outcome (play_second D (p1\<lparr>self := s1\<rparr>) [GetDecision P1] d p2)
          = Inl (InvalidDecisionError who dec)" by simp
      show ?thesis
        using play_second_no_report [OF o] play_second_agent_2 [OF o] p g1 by simp
    qed
  qed
  have pure_1: "agent_1 (play D p1 p2) = p1"
    if "outcome (play D p1 p2) = Inl (InvalidDecisionError who dec)"
      and "\<forall>s. fst (get_decision p1 s) = s"
    using second [OF that(1)] that(2) by simp
  have pure_2: "agent_2 (play D p1 p2) = p2"
    if "outcome (play D p1 p2) = Inl (InvalidDecisionError who dec)"
      and "\<forall>s. fst (get_decision p2 s) = s"
    using second [OF that(1)] that(2) by auto
  have rd: "\<forall>s. fst (get_decision (RiskAwareRDplayer ar g nm ra) s) = s"
    by (simp add: RiskAwareRDplayer_def)
  have eu: "\<forall>s. fst (get_decision (RiskAwareEUplayer ar' g' nm' ra' a b) s) = s"
    by (simp add: RiskAwareEUplayer_def)
  from first second pure_1 pure_2 rd eu show ?thesis by blast
qed

theorem play_failure_state_witness:
  "calls (play [[[Fin 3, Fin 0], [Fin 5, Fin 1]]]
      (FixedPlayer (RiskAwareRDplayer exact [[[Fin 3, Fin 0], [Fin 5, Fin 1]]] ''b'' 0) (Decision 0 5))
      (RiskAwareRDplayer exact [[[Fin 3, Fin 0], [Fin 5, Fin 1]]] ''a'' 0)) = [GetDecision P1]
   \<and> their_prior_decision (self (agent_1 (play [[[Fin 3, Fin 0], [Fin 5, Fin 1]]]
      ((RiskAwareRDplayer exact [[[Fin 3, Fin 0], [Fin 5, Fin 1]]] ''a'' 0)
         \<lparr>self := \<lparr>rd_game = [[[Fin 3, Fin 0], [Fin 5, Fin 1]]], rd_risk_aversion = 0,
                   their_prior_decision = Some (Decision 1 0)\<rparr>\<rparr>)
      (FixedPlayer (RiskAwareRDplayer exact [[[Fin 3, Fin 0], [Fin 5, Fin 1]]] ''b'' 0) (Decision 0 5)))))
     = Some (Decision 1 0)"
proof -
  let ?D = "[[[Fin 3, Fin 0], [Fin 5, Fin 1]]]"
  let ?s = "\<lparr>rd_game = ?D, rd_risk_aversion = 0, their_prior_decision = Some (Decision 1 0)\<rparr>"
  let ?A = "(RiskAwareRDplayer exact ?D ''a'' 0)\<lparr>self := ?s\<rparr>"
  let ?B = "FixedPlayer (RiskAwareRDplayer exact ?D ''b'' 0) (Decision 0 5)"
  have bad: "\<not> valid ?D (Decision 0 5)" and good: "valid ?D (Decision 0 0)"
    by (simp_all add: valid_def Decision_def)
  have gb: "get_decision ?B (self ?B) = (self ?B, Inr (Decision 0 5))"
    by (simp add: FixedPlayer_def)
  have ga: "get_decision ?A (self ?A) = (?s, Inr (Decision 0 0))"
    by (simp add: RiskAwareRDplayer_def rd_example_decision)
  have "calls (play ?D ?B (RiskAwareRDplayer exact ?D ''a'' 0)) = [GetDecision P1]"
    using play_failure_state [where D = ?D and ?p1.0 = ?B and ?d1.0 = "Decision 0 5"
        and ?p2.0 = "RiskAwareRDplayer exact ?D ''a'' 0"] gb bad
    by simp
  moreover have "play ?D ?A ?B = played (?A\<lparr>self := ?s\<rparr>) (?B\<lparr>self := self ?B\<rparr>)
      ([GetDecision P1] @ [GetDecision P2])
      (Inl (InvalidDecisionError (?B\<lparr>self := self ?B\<rparr>) (Decision 0 5)))"
    using play_first_valid [OF ga, of ?D ?B] play_second_invalid [OF gb, of ?D] good bad
    by (simp add: invalid_iff)
  then have "outcome (play ?D ?A ?B) = Inl (InvalidDecisionError ?B (Decision 0 5))"
    by (simp add: played_def)
  then have "agent_1 (play ?D ?A ?B) = ?A"
    using play_failure_state [where D = ?D and ?p1.0 = ?A and ?p2.0 = ?B and who = ?B
        and dec = "Decision 0 5"]
    by (simp add: RiskAwareRDplayer_def)
  ultimately show ?thesis by simp
qed

section \<open>Properties of the Expected-Utility agent\<close>

lemma eu_report_result_0:
  assumes "strategy_prior s = [c0, c1]" and "strategy (their_decision r) = 0"
  shows "eu_report_result s r = (s\<lparr>strategy_prior := [c0 + 1, c1]\<rparr>, Inr ())"
  using assms by (simp add: eu_report_result_def)

lemma eu_report_result_1:
  assumes "strategy_prior s = [c0, c1]" and "strategy (their_decision r) = 1"
  shows "eu_report_result s r = (s\<lparr>strategy_prior := [c0, c1 + 1]\<rparr>, Inr ())"
  using assms by (simp add: eu_report_result_def)

lemma eu_report_all_counts:
  assumes "report_result p = eu_report_result"
    and "strategy_prior (self p) = [c0, c1]"
    and "\<forall>r\<in>set rs. strategy (their_decision r) = 0 \<or> strategy (their_decision r) = 1"
  shows "strategy_prior (self (report_all p rs)) =
           [c0 + of_nat (length (filter (\<lambda>r. strategy (their_decision r) = 0) rs)),
            c1 + of_nat (length (filter (\<lambda>r. strategy (their_decision r) = 1) rs))]"
  using assms
proof (induction rs arbitrary: p c0 c1)
  case Nil
  then show ?case by simp
next
  case (Cons r rs)
  let ?p = "p\<lparr>self := fst (report_result p (self p) r)\<rparr>"
  have rr: "report_result ?p = eu_report_result" using Cons.prems(1) by simp
  have rest: "\<forall>r\<in>set rs. strategy (their_decision r) = 0 \<or> strategy (their_decision r) = 1"
    using Cons.prems(3) by simp
  from Cons.prems(3) consider "strategy (their_decision r) = 0" | "strategy (their_decision r) = 1"
    by auto
  then show ?case
  proof cases
    case 1
    then have "strategy_prior (self ?p) = [c0 + 1, c1]"
      using Cons.prems(1,2) by (simp add: eu_report_result_0)
    from Cons.IH [OF rr this rest] 1 show ?thesis by (simp add: add.assoc)
  next
    case 2
    then have "strategy_prior (self ?p) = [c0, c1 + 1]"
      using Cons.prems(1,2) by (simp add: eu_report_result_1)
    from Cons.IH [OF rr this rest] 2 show ?thesis by (simp add: add.assoc)
  qed
qed

lemma sint_count:
  assumes "n < 2 ^ 63 - 1"
  shows "sint (1 + of_nat n :: 64 word) = 1 + int n"
proof -
  have "(1 + of_nat n :: 64 word) = word_of_int (1 + int n)" by simp
  then have "sint (1 + of_nat n :: 64 word) = signed_take_bit 63 (1 + int n)"
    by (simp only: sint_sbintrunc') simp
  also have "\<dots> = 1 + int n"
    using assms by (intro signed_take_bit_int_eq_self) auto
  finally show ?thesis .
qed

text \<open>
  C6. An Expected-Utility agent created with priors 1, 1 that has been reported \<open>k\<close>
  results with opponent strategy 1 and \<open>m\<close> with opponent strategy 0, in any order,
  holds the collaboration probability \<open>(k + 1) / (k + m + 2)\<close>; the counts are
  64-bit integers, so \<open>k\<close> and \<open>m\<close> are below \<open>2 ^ 63 - 1\<close>.
\<close>

theorem eu_posterior:
  assumes "\<forall>r\<in>set rs. strategy (their_decision r) = 0 \<or> strategy (their_decision r) = 1"
    and "k = length (filter (\<lambda>r. strategy (their_decision r) = 1) rs)"
    and "m = length (filter (\<lambda>r. strategy (their_decision r) = 0) rs)"
    and "k < 2 ^ 63 - 1" and "m < 2 ^ 63 - 1"
  shows "p_collab (self (report_all (RiskAwareEUplayer ar g nm ra 1 1) rs)) =
           Fin ((real k + 1) / (real k + real m + 2))"
proof -
  let ?p = "RiskAwareEUplayer ar g nm ra 1 1"
  have "strategy_prior (self (report_all ?p rs)) = [1 + of_nat m, 1 + of_nat k]"
    using eu_report_all_counts [of ?p 1 1 rs] assms(1-3)
    by (simp add: RiskAwareEUplayer_def)
  then have "p_collab (self (report_all ?p rs)) = beta_mean (1 + int k) (1 + int m)"
    using assms(4,5) by (simp add: p_collab_def sint_count)
  then show ?thesis by (simp add: beta_mean_def add.commute add.left_commute)
qed

theorem eu_posterior_witness:
  "p_collab (self (report_all (RiskAwareEUplayer exact [[[Fin 3, Fin 0], [Fin 5, Fin 1]]] ''EU'' 0 1 1)
     [Result (Decision 0 0) (Fin 0) (Decision 1 0) (Fin 5),
      Result (Decision 0 0) (Fin 3) (Decision 0 0) (Fin 3),
      Result (Decision 0 0) (Fin 0) (Decision 1 0) (Fin 5)])) = Fin (3 / 5)"
  using eu_posterior [of "[Result (Decision 0 0) (Fin 0) (Decision 1 0) (Fin 5),
      Result (Decision 0 0) (Fin 3) (Decision 0 0) (Fin 3),
      Result (Decision 0 0) (Fin 0) (Decision 1 0) (Fin 5)]" 2 1 exact
      "[[[Fin 3, Fin 0], [Fin 5, Fin 1]]]" "''EU''" 0]
  by (simp add: Result_def Decision_def)

section \<open>Properties of the tournament\<close>

lemma play_null:
  "play [[[Fin 3, Fin 0], [Fin 5, Fin 1]]] (Player g nm) (Player g' nm') =
     played (Player g nm) (Player g' nm')
       [GetDecision P1, GetDecision P2,
        ReportResult P1 (Result (Decision 0 0) (Fin 3) (Decision 0 0) (Fin 3)),
        ReportResult P2 (Result (Decision 0 0) (Fin 3) (Decision 0 0) (Fin 3))]
       (Inr (Result (Decision 0 0) (Fin 3) (Decision 0 0) (Fin 3)))"
  by (simp add: play_def play_second_def play_report_def Player_def Let_def invalid_def
      Decision_def get_payoff_def ebind_def py_index_def)

lemma replicate_step_null:
  "replicate_step ar [[[Fin 3, Fin 0], [Fin 5, Fin 1]]] g n (Player g1 nm, Player g2 nm', f) rep =
     (Player g1 nm, Player g2 nm',
      f\<lparr>rep_results := rep_results f @
           [\<lparr>rep_game = g, rep_rep = rep,
             rep_player_1 = \<lparr>log_name = nm, log_design = 0, log_strategy = 0, log_payoff = Fin 3\<rparr>,
             rep_player_2 = \<lparr>log_name = nm', log_design = 0, log_strategy = 0, log_payoff = Fin 3\<rparr>\<rparr>],
        p1_game_score := f_add ar (p1_game_score f) (f_div ar (Fin 3) (Fin (real_of_int n))),
        p2_game_score := f_add ar (p2_game_score f) (f_div ar (Fin 3) (Fin (real_of_int n)))\<rparr>)"
  by (simp add: replicate_step_def play_null played_def Result_def Decision_def Let_def)
    (simp add: Player_def)

lemma repeat_add_Suc: "repeat_add ar (Suc k) x c = f_add ar (repeat_add ar k x c) c"
proof (induction k arbitrary: x)
  case 0
  show ?case by simp
next
  case (Suc k)
  have "repeat_add ar (Suc (Suc k)) x c = repeat_add ar (Suc k) (f_add ar x c) c" by simp
  also have "\<dots> = f_add ar (repeat_add ar k (f_add ar x c) c) c" by (rule Suc.IH)
  also have "\<dots> = f_add ar (repeat_add ar (Suc k) x c) c" by simp
  finally show ?case .
qed

lemma rep_loop_null:
  "\<exists>f'. foldl (replicate_step ar [[[Fin 3, Fin 0], [Fin 5, Fin 1]]] g n)
            (Player g1 nm, Player g2 nm', f) [0..<k] = (Player g1 nm, Player g2 nm', f')
       \<and> p1_game_score f' =
           repeat_add ar k (p1_game_score f) (f_div ar (Fin 3) (Fin (real_of_int n)))
       \<and> p2_game_score f' =
           repeat_add ar k (p2_game_score f) (f_div ar (Fin 3) (Fin (real_of_int n)))
       \<and> results f' = results f \<and> drawn f' = drawn f
       \<and> p1_match_score f' = p1_match_score f \<and> p2_match_score f' = p2_match_score f"
proof (induction k)
  case 0
  show ?case by simp
next
  case (Suc k)
  then obtain f' where f': "foldl (replicate_step ar [[[Fin 3, Fin 0], [Fin 5, Fin 1]]] g n)
                 (Player g1 nm, Player g2 nm', f) [0..<k] = (Player g1 nm, Player g2 nm', f')"
    and s: "p1_game_score f' =
              repeat_add ar k (p1_game_score f) (f_div ar (Fin 3) (Fin (real_of_int n)))"
       "p2_game_score f' =
              repeat_add ar k (p2_game_score f) (f_div ar (Fin 3) (Fin (real_of_int n)))"
    and r: "results f' = results f" "drawn f' = drawn f"
       "p1_match_score f' = p1_match_score f" "p2_match_score f' = p2_match_score f"
    by blast
  show ?case
    using f' s r by (simp add: replicate_step_null repeat_add_Suc del: repeat_add.simps(2))
qed

lemma game_step_null:
  assumes "num_reps t = Some r"
  shows "\<exists>f'. game_step ar t (null_player nm, null_player nm') f
                 (g, [[[Fin 3, Fin 0], [Fin 5, Fin 1]]]) = f'
            \<and> bound f' = Some (Player [[[Fin 3, Fin 0], [Fin 5, Fin 1]]] nm,
                               Player [[[Fin 3, Fin 0], [Fin 5, Fin 1]]] nm')
            \<and> results f' = results f
            \<and> p1_match_score f' =
                f_add ar (p1_match_score f)
                  (f_div ar (null_game_score ar r) (Fin (real (length (games t)))))
            \<and> p2_match_score f' =
                f_add ar (p2_match_score f)
                  (f_div ar (null_game_score ar r) (Fin (real (length (games t)))))"
proof -
  let ?D = "[[[Fin 3, Fin 0], [Fin 5, Fin 1]]]"
  let ?f1 = "f\<lparr>p1_game_score := Fin 0, p2_game_score := Fin 0, drawn := drawn f\<rparr>"
  obtain f2 where f2: "foldl (replicate_step ar ?D g r) (Player ?D nm, Player ?D nm', ?f1)
                         [0..<nat r] = (Player ?D nm, Player ?D nm', f2)"
    and s: "p1_game_score f2 = null_game_score ar r" "p2_game_score f2 = null_game_score ar r"
    and k: "results f2 = results ?f1" "p1_match_score f2 = p1_match_score ?f1"
       "p2_match_score f2 = p2_match_score ?f1"
    using rep_loop_null [where ar = ar and g = g and n = r and ?g1.0 = ?D and nm = nm
        and ?g2.0 = ?D and nm' = nm' and f = ?f1 and k = "nat r"]
    by (auto simp add: null_game_score_def)
  show ?thesis
    using assms f2 s k
    by (simp add: game_step_def draw_num_reps_def null_player_def Let_def)
qed

lemma match_step_null:
  assumes "num_reps t = Some r"
    and "games t = [[[[Fin 3, Fin 0], [Fin 5, Fin 1]]]]"
  shows "\<exists>f'. match_step ar t f (null_player nm, null_player nm) = Inr f'
            \<and> results f' = (results f)(nm \<mapsto>
                 f_add ar
                   (f_add ar (bucket (results f) nm) (null_credit ar r (length (players t))))
                   (null_credit ar r (length (players t))))"
proof -
  let ?f0 = "f\<lparr>p1_match_score := Fin 0, p2_match_score := Fin 0\<rparr>"
  let ?P = "Player [[[Fin 3, Fin 0], [Fin 5, Fin 1]]] nm"
  let ?s = "null_match_score ar r"
  let ?N = "length (players t)"
  obtain f1 where f1: "game_step ar t (null_player nm, null_player nm) ?f0
                         (0, [[[Fin 3, Fin 0], [Fin 5, Fin 1]]]) = f1"
    and b: "bound f1 = Some (?P, ?P)"
    and r: "results f1 = results ?f0"
    and s: "p1_match_score f1 = ?s" "p2_match_score f1 = ?s"
    using game_step_null [OF assms(1), where ar = ar and f = ?f0 and nm = nm and nm' = nm
        and g = 0] assms(2)
    by (auto simp add: null_match_score_def)
  have nm: "name ?P = nm" by (simp add: Player_def)
  have fold: "games_loop ar t f (null_player nm, null_player nm) = f1"
    using assms(2) f1 by (simp add: games_loop_def)
  have "match_step ar t f (null_player nm, null_player nm) =
          Inr (f1\<lparr>match_results := match_results f1 @ [[(nm, ?s), (nm, ?s)]],
                  results := credit ar (credit ar (results f) nm nm nm ?s ?N) nm nm nm ?s ?N\<rparr>)"
    unfolding match_step_def fold Let_def using b r s nm by simp
  moreover have "credit ar (credit ar (results f) nm nm nm ?s ?N) nm nm nm ?s ?N =
      (results f)(nm \<mapsto>
         f_add ar (f_add ar (bucket (results f) nm) (null_credit ar r ?N)) (null_credit ar r ?N))"
    by (simp add: credit_def bucket_def null_credit_def)
  ultimately show ?thesis by simp
qed

lemma match_loop_null:
  assumes "num_reps t = Some r"
    and "games t = [[[[Fin 3, Fin 0], [Fin 5, Fin 1]]]]"
    and "set ms \<subseteq> {(null_player nm, null_player nm)}"
  shows "\<exists>f'. match_loop ar t f ms = Inr f'
            \<and> (ms = [] \<longrightarrow> results f' = results f)
            \<and> (ms \<noteq> [] \<longrightarrow> results f' = (results f)(nm \<mapsto>
                  repeat_add ar (2 * length ms) (bucket (results f) nm)
                    (null_credit ar r (length (players t)))))"
  using assms(3)
proof (induction ms arbitrary: f)
  case Nil
  then show ?case by simp
next
  case (Cons m ms)
  let ?c = "null_credit ar r (length (players t))"
  let ?b = "bucket (results f) nm"
  from Cons.prems have m: "m = (null_player nm, null_player nm)"
    and rest: "set ms \<subseteq> {(null_player nm, null_player nm)}" by auto
  obtain f1 where f1: "match_step ar t f m = Inr f1"
    and r1: "results f1 = (results f)(nm \<mapsto> f_add ar (f_add ar ?b ?c) ?c)"
    using match_step_null [OF assms(1,2), where ar = ar and f = f and nm = nm] m by blast
  have x1: "bucket (results f1) nm = f_add ar (f_add ar ?b ?c) ?c"
    using r1 by (simp add: bucket_def)
  from Cons.IH [OF rest, of f1] obtain f' where f': "match_loop ar t f1 ms = Inr f'"
    and r': "ms = [] \<longrightarrow> results f' = results f1"
       "ms \<noteq> [] \<longrightarrow> results f' = (results f1)(nm \<mapsto>
           repeat_add ar (2 * length ms) (bucket (results f1) nm) ?c)"
    by blast
  have ml: "match_loop ar t f (m # ms) = Inr f'" using f1 f' by simp
  have eq: "repeat_add ar (2 * length (m # ms)) ?b ?c =
              repeat_add ar (2 * length ms) (f_add ar (f_add ar ?b ?c) ?c) ?c"
    by simp
  have res: "results f' = (results f)(nm \<mapsto> repeat_add ar (2 * length (m # ms)) ?b ?c)"
  proof (cases "ms = []")
    case True
    with r'(1) r1 show ?thesis by (simp add: numeral_2_eq_2)
  next
    case False
    from False r'(2) have h: "results f' = (results f1)(nm \<mapsto>
           repeat_add ar (2 * length ms) (bucket (results f1) nm) ?c)"
      by (rule_tac mp)
    have "results f' = (results f)(nm \<mapsto>
           repeat_add ar (2 * length ms) (f_add ar (f_add ar ?b ?c) ?c) ?c)"
      using h unfolding x1 by (simp only: r1 fun_upd_upd)
    then show ?thesis unfolding eq .
  qed
  show ?case
  proof (rule exI [of _ f'], intro conjI impI)
    show "match_loop ar t f (m # ms) = Inr f'" by (rule ml)
    show "results f' = results f" if "m # ms = []" using that by simp
    show "results f' = (results f)(nm \<mapsto> repeat_add ar (2 * length (m # ms)) ?b ?c)"
      by (rule res)
  qed
qed

lemma length_combinations_with_replacement:
  "length (combinations_with_replacement xs) = length xs * (length xs + 1) div 2"
  by (induction xs) auto

lemma set_combinations_with_replacement:
  "set (combinations_with_replacement xs) \<subseteq> set xs \<times> set xs"
  by (induction xs) auto

lemma self_pair_enumerated:
  "x \<in> set xs \<Longrightarrow> (x, x) \<in> set (combinations_with_replacement xs)"
  by (induction xs) auto

lemma distinct_combinations_with_replacement:
  "distinct xs \<Longrightarrow> distinct (combinations_with_replacement xs)"
proof (induction xs)
  case Nil
  then show ?case by simp
next
  case (Cons x xs)
  have "inj (Pair x)" by (simp add: inj_on_def)
  then have "distinct (map (Pair x) (x # xs))"
    using Cons.prems by (auto simp add: distinct_map inj_on_def)
  moreover have "set (map (Pair x) (x # xs)) \<inter> set (combinations_with_replacement xs) = {}"
    using set_combinations_with_replacement [of xs] Cons.prems by (auto simp: image_iff)
  ultimately show ?case using Cons by simp
qed

lemma combinations_with_replacement_map:
  "combinations_with_replacement (map h xs) =
     map (\<lambda>(a, b). (h a, h b)) (combinations_with_replacement xs)"
  by (induction xs) auto

lemma combinations_with_replacement_index:
  "combinations_with_replacement xs =
     map (\<lambda>(i, j). (xs ! i, xs ! j)) (combinations_with_replacement [0..<length xs])"
  using combinations_with_replacement_map [of "(!) xs" "[0..<length xs]"]
  by (simp add: map_nth)

lemma run_null_players:
  assumes "1 \<le> N"
  shows "run_results ar \<lparr>players = replicate N (null_player nm),
                         games = [[[[Fin 3, Fin 0], [Fin 5, Fin 1]]]],
                         num_reps = Some r, rng = g\<rparr>
           = Inr [nm \<mapsto> null_score ar r N]"
proof -
  let ?t = "\<lparr>players = replicate N (null_player nm),
             games = [[[[Fin 3, Fin 0], [Fin 5, Fin 1]]]], num_reps = Some r, rng = g\<rparr>"
  let ?ms = "combinations_with_replacement (players ?t)"
  have sub: "set ?ms \<subseteq> {(null_player nm, null_player nm)}"
    using set_combinations_with_replacement [of "players ?t"] by auto
  have "even (N * (N + 1))" by simp
  then have len: "2 * length ?ms = N * (N + 1)"
    by (simp add: length_combinations_with_replacement)
  have ne: "?ms \<noteq> []" using assms by (cases N) auto
  obtain f' where f': "match_loop ar ?t initial_frame ?ms = Inr f'"
    and r': "?ms \<noteq> [] \<longrightarrow> results f' = (results (initial_frame :: designs frame))(nm \<mapsto>
               repeat_add ar (2 * length ?ms) (bucket (results (initial_frame :: designs frame)) nm)
                 (null_credit ar r (length (players ?t))))"
    using match_loop_null [where t = ?t and r = r and ms = ?ms and nm = nm and ar = ar
        and f = initial_frame] sub
    by auto
  have "results f' = (results (initial_frame :: designs frame))(nm \<mapsto>
               repeat_add ar (2 * length ?ms) (bucket (results (initial_frame :: designs frame)) nm)
                 (null_credit ar r (length (players ?t))))"
    using mp [OF r' ne] .
  then have "results f' = [nm \<mapsto> null_score ar r N]"
    unfolding len by (simp add: initial_frame_def bucket_def null_score_def)
  with f' show ?thesis by (simp add: run_results_def run_def)
qed

lemma repeat_add_exact: "repeat_add exact k (Fin x) (Fin c) = Fin (x + real k * c)"
  by (induction k arbitrary: x) (simp_all add: exact_def algebra_simps)

lemma null_score_exact:
  assumes "1 \<le> N" and "1 \<le> r"
  shows "null_score exact r N = Fin (3 * (real N + 1) / 2)"
proof -
  have d: "f_div exact (Fin 3) (Fin (real_of_int r)) = Fin (3 / real_of_int r)"
    using assms(2) by (simp add: exact_def)
  have three: "real (nat r) * (3 / real_of_int r) = 3" using assms(2) by simp
  have g: "null_game_score exact r = Fin 3"
    unfolding null_game_score_def d repeat_add_exact three by simp
  have m: "null_match_score exact r = Fin 3"
    unfolding null_match_score_def g by (simp add: exact_def)
  have c: "null_credit exact r N = Fin (3 / 2 / real N)"
    unfolding null_credit_def m using assms(1) by (simp add: exact_def)
  have v: "real (N * (N + 1)) * (3 / 2 / real N) = 3 * (real N + 1) / 2"
    using assms(1) by (simp add: field_simps)
  show ?thesis
    unfolding null_score_def c repeat_add_exact v by simp
qed

text \<open>
  C8 (amended). For \<open>N \<ge> 1\<close> null agents sharing one name, the one game with designs
  \<open>[[[3, 0], [5, 1]]]\<close> and a fixed replicate count \<open>r\<close>, \<^verbatim>\<open>run\<close> returns the map whose only
  bucket, that name's, holds the running sum \<open>null_score\<close>: there are \<open>N (N + 1) / 2\<close>
  matches, each halved on both sides, the names being equal, so that the bucket receives
  \<open>N (N + 1)\<close> times the halved match score over \<open>N\<close>, the match score being the sum of
  \<open>r\<close> times \<open>3 / r\<close>. This holds whatever the additions, products and quotients of the
  doubles return. In exact arithmetic, with \<open>r \<ge> 1\<close>, the sum is \<open>3 (N + 1) / 2\<close>, which is
  3 for one player only; it is the number the doubles return where they do not round.
  The matches are the pairs of positions \<open>i \<le> j\<close>, each enumerated once, so each
  self-pair exactly once.
\<close>

theorem null_tournament_score:
  assumes "1 \<le> N"
  shows "run_results ar \<lparr>players = replicate N (null_player nm),
                         games = [[[[Fin 3, Fin 0], [Fin 5, Fin 1]]]],
                         num_reps = Some r, rng = g\<rparr>
           = Inr [nm \<mapsto> null_score ar r N]
         \<and> (1 \<le> r \<longrightarrow> null_score exact r N = Fin (3 * (real N + 1) / 2))
         \<and> combinations_with_replacement ps =
             map (\<lambda>(i, j). (ps ! i, ps ! j)) (combinations_with_replacement [0..<length ps])
         \<and> distinct (combinations_with_replacement [0..<length ps])
         \<and> (\<forall>i<length ps. (i, i) \<in> set (combinations_with_replacement [0..<length ps]))"
  using run_null_players [OF assms] null_score_exact [OF assms]
    combinations_with_replacement_index [of ps]
    distinct_combinations_with_replacement [of "[0..<length ps]"]
    self_pair_enumerated [of _ "[0..<length ps]"]
  by simp

theorem null_tournament_score_witness:
  "run_results exact \<lparr>players = [null_player ''null''],
                       games = [[[[Fin 3, Fin 0], [Fin 5, Fin 1]]]],
                       num_reps = Some 4, rng = (\<lambda>k. 0)\<rparr>
     = Inr [''null'' \<mapsto> Fin 3]"
  using null_tournament_score [of 1 exact "''null''" 4 "\<lambda>k. 0" "[]"] by simp

text \<open>
  Two players and one replicate: no operation rounds (every value is a multiple of a
  quarter below 8), and the bucket holds 4.5.
\<close>

theorem null_tournament_score_counterexample:
  "run_results exact \<lparr>players = [null_player ''null'', null_player ''null''],
                       games = [[[[Fin 3, Fin 0], [Fin 5, Fin 1]]]],
                       num_reps = Some 1, rng = (\<lambda>k. 0)\<rparr>
     = Inr [''null'' \<mapsto> Fin (9 / 2)]
   \<and> Fin (9 / 2) \<noteq> Fin 3"
  using run_null_players [of 2 exact "''null''" 1 "\<lambda>k. 0"]
    null_score_exact [of 2 1]
  by (simp add: numeral_2_eq_2)

lemma play_report_names:
  "name (agent_1 (play_report p1 p2 c d1 a d2 b)) = name p1
   \<and> name (agent_2 (play_report p1 p2 c d1 a d2 b)) = name p2"
  by (simp add: play_report_def played_def Let_def split: prod.splits sum.splits)

lemma play_second_names:
  "name (agent_1 (play_second D p1 c d1 p2)) = name p1
   \<and> name (agent_2 (play_second D p1 c d1 p2)) = name p2"
  by (simp add: play_second_def played_def Let_def play_report_names split: prod.splits sum.splits)

lemma play_names:
  "name (agent_1 (play D p1 p2)) = name p1 \<and> name (agent_2 (play D p1 p2)) = name p2"
  by (simp add: play_def played_def Let_def play_second_names split: prod.splits sum.splits)

lemma replicate_step_frame:
  assumes "replicate_step ar game g n (a, b, f) rep = (a', b', f')"
  shows "name a' = name a \<and> name b' = name b \<and> same_match f f'"
  using assms play_names [of game a b]
  by (auto simp add: replicate_step_def Let_def same_match_def split: sum.splits failure.splits)

lemma rep_loop_frame:
  assumes "foldl (replicate_step ar game g n) (a, b, f) reps = (a', b', f')"
  shows "name a' = name a \<and> name b' = name b \<and> same_match f f'"
  using assms
proof (induction reps arbitrary: a b f)
  case Nil
  then show ?case by (simp add: same_match_def)
next
  case (Cons rep reps)
  obtain a1 b1 f1 where s: "replicate_step ar game g n (a, b, f) rep = (a1, b1, f1)"
    by (cases "replicate_step ar game g n (a, b, f) rep") auto
  from Cons.prems s have "foldl (replicate_step ar game g n) (a1, b1, f1) reps = (a', b', f')"
    by simp
  from Cons.IH [OF this] replicate_step_frame [OF s] show ?case
    by (simp add: same_match_def)
qed

lemma game_step_frame:
  "\<exists>q1 q2. bound (game_step ar t m f (g, game)) = Some (q1, q2)
     \<and> name q1 = name (fst m game) \<and> name q2 = name (snd m game)
     \<and> results (game_step ar t m f (g, game)) = results f
     \<and> match_results (game_step ar t m f (g, game)) = match_results f"
proof -
  obtain n k where d: "draw_num_reps t (drawn f) = (n, k)"
    by (cases "draw_num_reps t (drawn f)") auto
  let ?f1 = "f\<lparr>p1_game_score := Fin 0, p2_game_score := Fin 0, drawn := k\<rparr>"
  obtain q1 q2 f2 where l: "foldl (replicate_step ar game g n) (fst m game, snd m game, ?f1)
                              [0..<nat n] = (q1, q2, f2)"
    by (cases "foldl (replicate_step ar game g n) (fst m game, snd m game, ?f1) [0..<nat n]") auto
  from rep_loop_frame [OF l] have nm: "name q1 = name (fst m game)" "name q2 = name (snd m game)"
    and sm: "same_match ?f1 f2" by auto
  have "game_step ar t m f (g, game) =
          (f2\<lparr>bound := Some (q1, q2),
              game_results := game_results f2 @
                [\<lparr>entry_game = g, entry_reps = n,
                  entry_players = [(name q1, p1_game_score f2), (name q2, p2_game_score f2)]\<rparr>],
              p1_match_score :=
                f_add ar (p1_match_score f2) (f_div ar (p1_game_score f2) (Fin (real (length (games t))))),
              p2_match_score :=
                f_add ar (p2_match_score f2) (f_div ar (p2_game_score f2) (Fin (real (length (games t)))))\<rparr>)"
    using d l by (simp add: game_step_def Let_def)
  with nm sm show ?thesis by (simp add: same_match_def)
qed

lemma games_loop_frame:
  assumes "gs \<noteq> []"
  shows "\<exists>q1 q2. bound (foldl (game_step ar t m) f (enumerate i gs)) = Some (q1, q2)
     \<and> name q1 = name (fst m (last gs)) \<and> name q2 = name (snd m (last gs))
     \<and> results (foldl (game_step ar t m) f (enumerate i gs)) = results f
     \<and> match_results (foldl (game_step ar t m) f (enumerate i gs)) = match_results f"
  using assms
proof (induction gs arbitrary: f i)
  case Nil
  then show ?case by simp
next
  case (Cons game gs)
  show ?case
  proof (cases "gs = []")
    case True
    then show ?thesis using game_step_frame [of ar t m f i game] by simp
  next
    case False
    from Cons.IH [OF False, of "game_step ar t m f (i, game)" "Suc i"]
      game_step_frame [of ar t m f i game] False
    show ?thesis by auto
  qed
qed

lemma match_step_returns:
  assumes "games t \<noteq> []"
  shows "\<exists>f'. match_step ar t f (c1, c2) = Inr f'
     \<and> results f' =
         credit ar
           (credit ar (results f) (name (c1 (last (games t))))
              (name (c1 (last (games t)))) (name (c2 (last (games t))))
              (p1_match_score (games_loop ar t f (c1, c2))) (length (players t)))
           (name (c2 (last (games t))))
           (name (c1 (last (games t)))) (name (c2 (last (games t))))
           (p2_match_score (games_loop ar t f (c1, c2))) (length (players t))"
proof -
  let ?f0 = "f\<lparr>p1_match_score := Fin 0, p2_match_score := Fin 0\<rparr>"
  let ?f1 = "games_loop ar t f (c1, c2)"
  obtain q1 q2 where b: "bound ?f1 = Some (q1, q2)"
    and n: "name q1 = name (c1 (last (games t)))" "name q2 = name (c2 (last (games t)))"
    and r: "results ?f1 = results ?f0"
    using games_loop_frame [OF assms, of ar t "(c1, c2)" ?f0 0]
    by (auto simp add: games_loop_def)
  show ?thesis
    using b n r by (simp add: match_step_def Let_def)
qed

lemma credit_dom: "dom (credit ar res key a b s n) = insert key (dom res)"
  by (simp add: credit_def)

lemma match_loop_returns:
  assumes "games t \<noteq> []"
  shows "\<exists>f'. match_loop ar t f ms = Inr f'
     \<and> dom (results f') =
         dom (results f) \<union> (\<lambda>c. name (c (last (games t)))) ` (fst ` set ms \<union> snd ` set ms)"
proof (induction ms arbitrary: f)
  case Nil
  then show ?case by simp
next
  case (Cons m ms)
  obtain c1 c2 where m: "m = (c1, c2)" by (cases m)
  obtain f1 where f1: "match_step ar t f (c1, c2) = Inr f1"
    and d1: "dom (results f1) =
               insert (name (c2 (last (games t)))) (insert (name (c1 (last (games t))))
                 (dom (results f)))"
    using match_step_returns [OF assms, of ar f c1 c2] by (auto simp add: credit_dom)
  from Cons.IH [of f1] obtain f' where f': "match_loop ar t f1 ms = Inr f'"
    and d': "dom (results f') =
         dom (results f1) \<union> (\<lambda>c. name (c (last (games t)))) ` (fst ` set ms \<union> snd ` set ms)"
    by blast
  have "match_loop ar t f (m # ms) = Inr f'" using m f1 f' by simp
  moreover have "dom (results f') =
         dom (results f) \<union>
           (\<lambda>c. name (c (last (games t)))) ` (fst ` set (m # ms) \<union> snd ` set (m # ms))"
    using d' d1 m by auto
  ultimately show ?case by blast
qed

lemma combinations_with_replacement_members:
  "fst ` set (combinations_with_replacement xs) \<union> snd ` set (combinations_with_replacement xs)
     = set xs"
proof
  show "fst ` set (combinations_with_replacement xs) \<union> snd ` set (combinations_with_replacement xs)
          \<subseteq> set xs"
    using set_combinations_with_replacement [of xs] by auto
  show "set xs \<subseteq> fst ` set (combinations_with_replacement xs)
                    \<union> snd ` set (combinations_with_replacement xs)"
  proof
    fix x assume "x \<in> set xs"
    then have "(x, x) \<in> set (combinations_with_replacement xs)" by (rule self_pair_enumerated)
    then have "fst (x, x) \<in> fst ` set (combinations_with_replacement xs)" by (rule imageI)
    then show "x \<in> fst ` set (combinations_with_replacement xs)
                    \<union> snd ` set (combinations_with_replacement xs)" by simp
  qed
qed

lemma run_returns:
  assumes "games t \<noteq> []"
  shows "\<exists>m. run_results ar t = Inr m
           \<and> dom m = (\<lambda>c. name (c (last (games t)))) ` set (players t)"
proof -
  obtain f' where "match_loop ar t initial_frame (combinations_with_replacement (players t)) = Inr f'"
    and "dom (results f') = dom (results (initial_frame :: 'a frame)) \<union>
           (\<lambda>c. name (c (last (games t)))) `
             (fst ` set (combinations_with_replacement (players t))
              \<union> snd ` set (combinations_with_replacement (players t)))"
    using match_loop_returns [OF assms, of ar initial_frame "combinations_with_replacement (players t)"]
    by blast
  then show ?thesis
    by (simp add: run_results_def run_def combinations_with_replacement_members initial_frame_def)
qed

lemma replicate_step_failed:
  assumes "outcome (play game a b) = Inl e"
  shows "replicate_step ar game g n (a, b, f) rep =
           (agent_1 (play game a b), agent_2 (play game a b),
            f\<lparr>error_results := error_results f @
               [case e of
                  InvalidDecisionError pl dec \<Rightarrow>
                    DecisionEntry g rep (name pl) (design dec) (strategy dec) e
                | Raised x \<Rightarrow> ExceptionEntry g rep (name a) (name b) e]\<rparr>)"
  using assms play_names [of game a b]
  by (cases e) (simp_all add: replicate_step_def Let_def)

lemma replicate_step_played:
  assumes "outcome (play game a b) = Inr res"
  shows "\<exists>f'. replicate_step ar game g n (a, b, f) rep =
           (agent_1 (play game a b), agent_2 (play game a b), f')
         \<and> error_results f' = error_results f
         \<and> p1_game_score f' = f_add ar (p1_game_score f) (f_div ar (my_payoff res) (Fin (real_of_int n)))
         \<and> p2_game_score f' = f_add ar (p2_game_score f) (f_div ar (their_payoff res) (Fin (real_of_int n)))"
  using assms by (simp add: replicate_step_def Let_def)

text \<open>
  C3. The claim holds for a tournament with at least one game (\<open>run_returns\<close>,
  \<open>replicate_step_failed\<close>, \<open>replicate_step_played\<close> above): a failed replicate adds
  one error entry with the game, the replicate and the names, and no score; a played one
  adds its payoffs over the replicate count; \<^verbatim>\<open>run\<close> returns a map with a bucket for every
  player's name. Without a game, the default of the constructor, \<^verbatim>\<open>run\<close> does not return:
  logging the first match reads \<^verbatim>\<open>player_1\<close>, which only the loop over games assigns.
\<close>

theorem run_without_games:
  "run_results ar \<lparr>players = [null_player ''null''], games = [], num_reps = Some 1,
                 rng = (\<lambda>k. 0)\<rparr> = Inl UnboundLocalError"
  by (simp add: run_results_def run_def match_step_def games_loop_def initial_frame_def)

lemmas eu_eval = eu_get_decision_def independent_expected_value_def collab_expected_value_def
  expected_value_def p_collab_def beta_mean_def get_utility_def get_payoff_def py_index_def
  ebind_def Decision_def np_nanargmax_def np_argmax_def nan_to_minf_def fl_sub_def Let_def
  exact_def

lemma eu_example_decision:
  "eu_get_decision exact \<lparr>eu_game = [[[Fin 3, Fin 0], [Fin 5, Fin 1]]], eu_risk_aversion = 0,
      strategy_prior = [1, c]\<rparr> = Inr (Decision 1 0)"
  if "c = 1 \<or> c = 5"
  using that by (auto simp add: eu_eval)

text \<open>
  C7 (amended). With at least one game, a match ends by adding each side's match score,
  over the number of players, into the bucket of that side's name. Both contributions are
  halved exactly when the two names are equal: then they meet in one bucket. A self-pair
  has equal names; so has a pair of distinct constructors that share a name. The sums,
  products and quotients are those the arithmetic of the doubles returns.
\<close>

theorem match_credit:
  fixes ar :: arith and t :: "'s tournament" and f :: "'s frame"
    and c1 c2 :: "designs \<Rightarrow> 's player"
  defines "n1 \<equiv> name (c1 (last (games t)))" and "n2 \<equiv> name (c2 (last (games t)))"
    and "s1 \<equiv> p1_match_score (games_loop ar t f (c1, c2))"
    and "s2 \<equiv> p2_match_score (games_loop ar t f (c1, c2))"
    and "N \<equiv> real (length (players t))"
  assumes "games t \<noteq> []"
  shows "\<exists>f'. match_step ar t f (c1, c2) = Inr f'
     \<and> (n1 \<noteq> n2 \<longrightarrow> results f' =
          (results f)(n1 \<mapsto> f_add ar (bucket (results f) n1) (f_div ar (f_mul ar s1 (Fin 1)) (Fin N)),
                      n2 \<mapsto> f_add ar (bucket (results f) n2) (f_div ar (f_mul ar s2 (Fin 1)) (Fin N))))
     \<and> (n1 = n2 \<longrightarrow> results f' =
          (results f)(n1 \<mapsto>
             f_add ar
               (f_add ar (bucket (results f) n1) (f_div ar (f_mul ar s1 (Fin (1 / 2))) (Fin N)))
               (f_div ar (f_mul ar s2 (Fin (1 / 2))) (Fin N))))
     \<and> (c1 = c2 \<longrightarrow> n1 = n2)"
proof -
  obtain f' where f': "match_step ar t f (c1, c2) = Inr f'"
    and r: "results f' = credit ar (credit ar (results f) n1 n1 n2 s1 (length (players t)))
                           n2 n1 n2 s2 (length (players t))"
    using match_step_returns [OF assms(6), of ar f c1 c2]
    unfolding n1_def n2_def s1_def s2_def by blast
  have a: "results f' =
          (results f)(n1 \<mapsto> f_add ar (bucket (results f) n1) (f_div ar (f_mul ar s1 (Fin 1)) (Fin N)),
                      n2 \<mapsto> f_add ar (bucket (results f) n2) (f_div ar (f_mul ar s2 (Fin 1)) (Fin N)))"
    if "n1 \<noteq> n2"
    using that r by (simp add: credit_def bucket_def N_def)
  have b: "results f' =
          (results f)(n1 \<mapsto>
             f_add ar
               (f_add ar (bucket (results f) n1) (f_div ar (f_mul ar s1 (Fin (1 / 2))) (Fin N)))
               (f_div ar (f_mul ar s2 (Fin (1 / 2))) (Fin N)))"
    if "n1 = n2"
    using that r by (simp add: credit_def bucket_def N_def)
  have c: "c1 = c2 \<longrightarrow> n1 = n2" by (simp add: n1_def n2_def)
  from f' a b c show ?thesis by blast
qed

lemma eu_players_differ: "eu_player exact ''x'' 0 1 1 \<noteq> eu_player exact ''x'' 0 5 1"
proof
  assume "eu_player exact ''x'' 0 1 1 = eu_player exact ''x'' 0 5 1"
  then have "self (eu_player exact ''x'' 0 1 1 []) = self (eu_player exact ''x'' 0 5 1 [])"
    by simp
  then show False by (simp add: eu_player_def RiskAwareEUplayer_def)
qed

lemma eu_match_example:
  "play [[[Fin 3, Fin 0], [Fin 5, Fin 1]]]
     (eu_player exact ''x'' 0 1 1 [[[Fin 3, Fin 0], [Fin 5, Fin 1]]])
     (eu_player exact ''x'' 0 5 1 [[[Fin 3, Fin 0], [Fin 5, Fin 1]]]) =
   played
     ((eu_player exact ''x'' 0 1 1 [[[Fin 3, Fin 0], [Fin 5, Fin 1]]])
        \<lparr>self := \<lparr>eu_game = [[[Fin 3, Fin 0], [Fin 5, Fin 1]]], eu_risk_aversion = 0,
                  strategy_prior = [1, 2]\<rparr>\<rparr>)
     ((eu_player exact ''x'' 0 5 1 [[[Fin 3, Fin 0], [Fin 5, Fin 1]]])
        \<lparr>self := \<lparr>eu_game = [[[Fin 3, Fin 0], [Fin 5, Fin 1]]], eu_risk_aversion = 0,
                  strategy_prior = [1, 6]\<rparr>\<rparr>)
     [GetDecision P1, GetDecision P2,
      ReportResult P1 (Result (Decision 1 0) (Fin 1) (Decision 1 0) (Fin 1)),
      ReportResult P2 (Result (Decision 1 0) (Fin 1) (Decision 1 0) (Fin 1))]
     (Inr (Result (Decision 1 0) (Fin 1) (Decision 1 0) (Fin 1)))"
proof -
  let ?D = "[[[Fin 3, Fin 0], [Fin 5, Fin 1]]]"
  let ?sa = "\<lparr>eu_game = ?D, eu_risk_aversion = 0, strategy_prior = [1, 1]\<rparr>"
  let ?sb = "\<lparr>eu_game = ?D, eu_risk_aversion = 0, strategy_prior = [1, 5]\<rparr>"
  let ?A = "eu_player exact ''x'' 0 1 1 ?D"
  let ?B = "eu_player exact ''x'' 0 5 1 ?D"
  let ?r = "Result (Decision 1 0) (Fin 1) (Decision 1 0) (Fin 1)"
  have wf: "wf_designs ?D" by (simp add: wf_designs_def)
  have v: "valid ?D (Decision 1 0)" by (simp add: valid_def Decision_def)
  have ga: "get_decision ?A (self ?A) = (?sa, Inr (Decision 1 0))"
    by (simp add: eu_player_def RiskAwareEUplayer_def eu_example_decision)
  have gb: "get_decision ?B (self ?B) = (?sb, Inr (Decision 1 0))"
    by (simp add: eu_player_def RiskAwareEUplayer_def eu_example_decision)
  have pa: "Fin 1 = ?D ! nat (design (Decision 1 0)) ! nat (strategy (Decision 1 0))
                      ! nat (strategy (Decision 1 0))"
    by (simp add: Decision_def)
  have ra: "report_result ?A ?sa ?r = (?sa\<lparr>strategy_prior := [1, 2]\<rparr>, Inr ())"
    by (simp add: eu_player_def RiskAwareEUplayer_def eu_report_result_def Result_def Decision_def)
  have rb: "report_result ?B ?sb ?r = (?sb\<lparr>strategy_prior := [1, 6]\<rparr>, Inr ())"
    by (simp add: eu_player_def RiskAwareEUplayer_def eu_report_result_def Result_def Decision_def)
  show ?thesis
    using play_both_valid [OF wf ga v gb v pa pa ra rb] by simp
qed

theorem match_credit_counterexample:
  "eu_player exact ''x'' 0 1 1 \<noteq> eu_player exact ''x'' 0 5 1
   \<and> map_sum id results
       (match_step exact
          \<lparr>players = [eu_player exact ''x'' 0 1 1, eu_player exact ''x'' 0 5 1],
           games = [[[[Fin 3, Fin 0], [Fin 5, Fin 1]]]], num_reps = Some 1, rng = (\<lambda>k. 0)\<rparr>
          initial_frame (eu_player exact ''x'' 0 1 1, eu_player exact ''x'' 0 5 1))
     = Inr [''x'' \<mapsto> Fin (1 / 2)]
   \<and> map_sum id match_results
       (match_step exact
          \<lparr>players = [eu_player exact ''x'' 0 1 1, eu_player exact ''x'' 0 5 1],
           games = [[[[Fin 3, Fin 0], [Fin 5, Fin 1]]]], num_reps = Some 1, rng = (\<lambda>k. 0)\<rparr>
          initial_frame (eu_player exact ''x'' 0 1 1, eu_player exact ''x'' 0 5 1))
     = Inr [[(''x'', Fin 1), (''x'', Fin 1)]]"
proof -
  let ?D = "[[[Fin 3, Fin 0], [Fin 5, Fin 1]]]"
  have nm: "name (eu_player exact ''x'' 0 1 1 ?D) = ''x''"
    "name (eu_player exact ''x'' 0 5 1 ?D) = ''x''"
    by (simp_all add: eu_player_def RiskAwareEUplayer_def)
  show ?thesis
    by (simp add: match_step_def games_loop_def game_step_def draw_num_reps_def
        replicate_step_def eu_match_example played_def credit_def bucket_def initial_frame_def
        Result_def Decision_def Let_def nm eu_players_differ)
      (simp add: exact_def)
qed

theorem match_credit_witness:
  "map_sum id results
     (match_step exact
        \<lparr>players = [null_player ''a'', null_player ''b''],
         games = [[[[Fin 3, Fin 0], [Fin 5, Fin 1]]]], num_reps = Some 1, rng = (\<lambda>k. 0)\<rparr>
        initial_frame (null_player ''a'', null_player ''b''))
     = Inr [''a'' \<mapsto> Fin (3 / 2), ''b'' \<mapsto> Fin (3 / 2)]"
proof -
  let ?D = "[[[Fin 3, Fin 0], [Fin 5, Fin 1]]]"
  let ?t = "\<lparr>players = [null_player ''a'', null_player ''b''],
            games = [?D], num_reps = Some 1, rng = (\<lambda>k. 0)\<rparr>"
  let ?f = "initial_frame :: designs frame"
  let ?m = "(null_player ''a'', null_player ''b'')"
  have g: "games ?t \<noteq> []" by simp
  have gs: "null_game_score exact 1 = Fin 3"
    by (simp add: null_game_score_def exact_def)
  have s: "p1_match_score (games_loop exact ?t ?f ?m) = Fin 3"
    "p2_match_score (games_loop exact ?t ?f ?m) = Fin 3"
    using game_step_null [where t = ?t and r = 1 and ar = exact
        and f = "?f\<lparr>p1_match_score := Fin 0, p2_match_score := Fin 0\<rparr>"
        and nm = "''a''" and nm' = "''b''" and g = 0]
    by (simp_all add: games_loop_def gs) (simp_all add: exact_def)
  have n: "name (null_player ''a'' (last (games ?t))) = ''a''"
    "name (null_player ''b'' (last (games ?t))) = ''b''"
    by (simp_all add: null_player_def Player_def)
  obtain f' where "match_step exact ?t ?f ?m = Inr f'"
    and "results f' = [''a'' \<mapsto> Fin (3 / 2), ''b'' \<mapsto> Fin (3 / 2)]"
    using match_credit [OF g, where ?c1.0 = "null_player ''a''" and ?c2.0 = "null_player ''b''"
        and f = ?f and ar = exact]
    unfolding s n by (auto simp add: bucket_def initial_frame_def exact_def)
  then show ?thesis by simp
qed

section \<open>Properties of the selections\<close>

lemma fl_le_refl: "x \<noteq> NaN \<Longrightarrow> fl_le x x"
  by (cases x) auto

lemma fl_le_trans: "fl_le x y \<Longrightarrow> fl_le y z \<Longrightarrow> fl_le x z"
  by (cases x; cases y; cases z) auto

lemma fl_not_le: "x \<noteq> NaN \<Longrightarrow> y \<noteq> NaN \<Longrightarrow> \<not> fl_le x y \<Longrightarrow> fl_less y x"
  by (cases x; cases y) auto

lemma fl_less_le: "fl_less x y \<Longrightarrow> fl_le x y"
  by (cases x; cases y) auto

lemma fl_le_less_trans: "fl_le x y \<Longrightarrow> fl_less y z \<Longrightarrow> fl_less x z"
  by (cases x; cases y; cases z) auto

lemma fl_less_not_le: "fl_less x y \<Longrightarrow> \<not> fl_le y x"
  by (cases x; cases y) auto

lemma argmax_scan_NaN: "argmax_scan NaN mi i xs = mi"
  by (cases xs) auto

text \<open>The scan keeps the first largest entry of what it has read.\<close>

lemma argmax_scan_first_max:
  assumes "NaN \<notin> set (pre @ xs)" and "first_max pre mi" and "mp = pre ! mi" and "i = length pre"
  shows "first_max (pre @ xs) (argmax_scan mp mi i xs)"
  using assms
proof (induction xs arbitrary: pre mp mi i)
  case Nil
  then show ?case by simp
next
  case (Cons x xs)
  from Cons.prems have mi: "mi < length pre" by (simp add: first_max_def)
  from Cons.prems(1) have x: "x \<noteq> NaN" by auto
  have "pre ! mi \<in> set pre" using mi by (rule nth_mem)
  with Cons.prems(1,3) have mp: "mp \<noteq> NaN" by auto
  have nan: "NaN \<notin> set ((pre @ [x]) @ xs)" using Cons.prems(1) by simp
  show ?case
  proof (cases "fl_le x mp")
    case True
    have "first_max (pre @ [x]) mi"
      using Cons.prems(2,3) True mi
      by (auto simp add: first_max_def nth_append less_Suc_eq)
    from Cons.IH [OF nan this] Cons.prems(3,4) mi True mp show ?thesis
      by (simp add: nth_append)
  next
    case False
    then have less: "fl_less mp x" using mp x by (simp add: fl_not_le)
    have "first_max (pre @ [x]) (length pre)"
      unfolding first_max_def
    proof (intro conjI allI impI)
      show "length pre < length (pre @ [x])" by simp
      fix j
      show "fl_le ((pre @ [x]) ! j) ((pre @ [x]) ! length pre)" if "j < length (pre @ [x])"
      proof (cases "j < length pre")
        case True
        then have "fl_le (pre ! j) mp" using Cons.prems(2,3) by (simp add: first_max_def)
        then have "fl_le (pre ! j) x" using less fl_less_le fl_le_trans by blast
        then show ?thesis using True by (simp add: nth_append)
      next
        case False
        with that have "j = length pre" by simp
        then show ?thesis using x by (simp add: fl_le_refl)
      qed
      show "fl_less ((pre @ [x]) ! j) ((pre @ [x]) ! length pre)" if "j < length pre"
      proof -
        from that have "fl_le (pre ! j) mp" using Cons.prems(2,3) by (simp add: first_max_def)
        then have "fl_less (pre ! j) x" using less fl_le_less_trans by blast
        then show ?thesis using that by (simp add: nth_append)
      qed
    qed
    from Cons.IH [OF nan this, where mp = x and i = "Suc i"] Cons.prems(4) False mp show ?thesis
      by simp
  qed
qed

text \<open>When a NaN is ahead, the scan stops at the first one.\<close>

lemma argmax_scan_first_nan:
  assumes "NaN \<in> set xs" and "mp \<noteq> NaN"
  shows "i \<le> argmax_scan mp mi i xs \<and> argmax_scan mp mi i xs - i < length xs
         \<and> xs ! (argmax_scan mp mi i xs - i) = NaN
         \<and> (\<forall>j<argmax_scan mp mi i xs - i. xs ! j \<noteq> NaN)"
  using assms
proof (induction xs arbitrary: mp mi i)
  case Nil
  then show ?case by simp
next
  case (Cons x xs)
  show ?case
  proof (cases "x = NaN")
    case True
    with Cons.prems(2) show ?thesis by (simp add: argmax_scan_NaN)
  next
    case False
    with Cons.prems(1) have rest: "NaN \<in> set xs" by simp
    let ?r = "argmax_scan mp mi i (x # xs)"
    have "\<exists>mp' mi'. mp' \<noteq> NaN \<and> ?r = argmax_scan mp' mi' (Suc i) xs"
      using Cons.prems(2) False by auto
    then obtain mp' mi' where mp': "mp' \<noteq> NaN" and r: "?r = argmax_scan mp' mi' (Suc i) xs"
      by blast
    from Cons.IH [OF rest mp', where mi = mi' and i = "Suc i"] r
    have a: "Suc i \<le> ?r" and b: "?r - Suc i < length xs" and c: "xs ! (?r - Suc i) = NaN"
      and d: "\<forall>j<?r - Suc i. xs ! j \<noteq> NaN" by simp_all
    from a have e: "?r - i = Suc (?r - Suc i)" by simp
    have "\<forall>j<?r - i. (x # xs) ! j \<noteq> NaN"
    proof (intro allI impI)
      fix j assume "j < ?r - i"
      then show "(x # xs) ! j \<noteq> NaN" using False d e by (cases j) auto
    qed
    with a b c e show ?thesis by simp
  qed
qed

lemma np_argmax_plain:
  assumes "xs \<noteq> []"
  shows "\<exists>i. np_argmax xs = Inr i \<and> plain_argmax xs i"
proof -
  from assms obtain x ys where xs: "xs = x # ys" by (cases xs) auto
  let ?i = "argmax_scan x 0 1 ys"
  have "plain_argmax xs ?i"
  proof (cases "NaN \<in> set xs")
    case False
    then have "x \<noteq> NaN" using xs by auto
    then have "first_max [x] 0" by (simp add: first_max_def fl_le_refl)
    from argmax_scan_first_max [where pre = "[x]" and xs = ys and mi = 0 and mp = x and i = 1]
      this False xs
    show ?thesis by (simp add: plain_argmax_def)
  next
    case True
    show ?thesis
    proof (cases "x = NaN")
      case True
      then show ?thesis using xs by (simp add: plain_argmax_def argmax_scan_NaN)
    next
      case False
      with True xs have "NaN \<in> set ys" by simp
      from argmax_scan_first_nan [OF this False, where mi = 0 and i = 1]
      have a: "1 \<le> ?i" and b: "?i - 1 < length ys" and c: "ys ! (?i - 1) = NaN"
        and d: "\<forall>j<?i - 1. ys ! j \<noteq> NaN" by simp_all
      have "\<forall>j<?i. xs ! j \<noteq> NaN"
      proof (intro allI impI)
        fix j assume "j < ?i"
        then show "xs ! j \<noteq> NaN" using False d xs by (cases j) auto
      qed
      moreover have "xs ! ?i = NaN" using a c xs by (cases ?i) auto
      moreover have "?i < length xs" using a b xs by simp
      ultimately show ?thesis using True by (simp add: plain_argmax_def)
    qed
  qed
  then show ?thesis using xs by (simp add: np_argmax_def)
qed

lemma np_nanargmax_tolerant:
  assumes "\<not> list_all (\<lambda>x. x = NaN) xs"
  shows "\<exists>i. np_nanargmax xs = Inr i \<and> nan_argmax xs i"
proof -
  from assms have ne: "map nan_to_minf xs \<noteq> []" by auto
  have nonan: "NaN \<notin> set (map nan_to_minf xs)" by (auto simp add: nan_to_minf_def)
  from np_argmax_plain [OF ne] obtain i where i: "np_argmax (map nan_to_minf xs) = Inr i"
    and p: "plain_argmax (map nan_to_minf xs) i" by blast
  from p nonan have "first_max (map nan_to_minf xs) i" by (simp add: plain_argmax_def)
  moreover from assms have "\<exists>x\<in>set xs. x \<noteq> NaN" by (simp add: list_all_iff)
  ultimately show ?thesis using assms i by (simp add: np_nanargmax_def nan_argmax_def)
qed

lemma first_max_unique: "first_max ys i \<Longrightarrow> first_max ys j \<Longrightarrow> i = j"
proof (rule ccontr)
  assume a: "first_max ys i" and b: "first_max ys j" and "i \<noteq> j"
  then consider "i < j" | "j < i" by linarith
  then show False
  proof cases
    case 1
    with b have "fl_less (ys ! i) (ys ! j)" by (simp add: first_max_def)
    moreover from a b have "fl_le (ys ! j) (ys ! i)" by (simp add: first_max_def)
    ultimately show False using fl_less_not_le by blast
  next
    case 2
    with a have "fl_less (ys ! j) (ys ! i)" by (simp add: first_max_def)
    moreover from a b have "fl_le (ys ! i) (ys ! j)" by (simp add: first_max_def)
    ultimately show False using fl_less_not_le by blast
  qed
qed

lemma plain_argmax_unique: "plain_argmax xs i \<Longrightarrow> plain_argmax xs j \<Longrightarrow> i = j"
proof (cases "NaN \<in> set xs")
  case False
  assume "plain_argmax xs i" and "plain_argmax xs j"
  with False show ?thesis by (simp add: plain_argmax_def first_max_unique)
next
  case True
  assume "plain_argmax xs i" and "plain_argmax xs j"
  with True have i: "xs ! i = NaN" "\<forall>k<i. xs ! k \<noteq> NaN"
    and j: "xs ! j = NaN" "\<forall>k<j. xs ! k \<noteq> NaN"
    by (simp_all add: plain_argmax_def)
  show ?thesis
  proof (rule ccontr)
    assume "i \<noteq> j"
    then consider "i < j" | "j < i" by linarith
    then show False using i j by cases auto
  qed
qed

lemma nan_argmax_unique: "nan_argmax xs i \<Longrightarrow> nan_argmax xs j \<Longrightarrow> i = j"
  by (auto simp add: nan_argmax_def first_max_unique)

lemma emap_total:
  assumes "\<forall>x\<in>set xs. f x = Inr (g x)"
  shows "emap f xs = Inr (map g xs)"
  using assms by (induction xs) auto

lemma expected_value_wf:
  assumes "wf_designs (eu_game s)" and "d < length (eu_game s)" and "st < 2"
  shows "expected_value ar s (int st) (int d) = Inr (expected_utility ar s st d)"
proof -
  have v: "valid (eu_game s) (Decision (int st) (int d))"
    using assms(2,3) by (auto simp add: valid_def Decision_def)
  have v0: "valid (eu_game s) (Decision 0 0)" and v1: "valid (eu_game s) (Decision 1 0)"
    using assms(2) by (auto simp add: valid_def Decision_def)
  have a: "get_payoff (eu_game s) (Decision (int st) (int d)) (Decision 1 0)
             = Inr (eu_game s ! d ! st ! 1)"
    using get_payoff_valid [OF assms(1) v v1] by (simp add: Decision_def)
  have b: "get_payoff (eu_game s) (Decision (int st) (int d)) (Decision 0 0)
             = Inr (eu_game s ! d ! st ! 0)"
    using get_payoff_valid [OF assms(1) v v0] by (simp add: Decision_def)
  show ?thesis
    by (simp add: expected_value_def a b ebind_def expected_utility_def Let_def)
qed

lemma expected_values_wf:
  assumes "wf_designs (eu_game s)" and "st < 2"
  shows "emap (expected_value ar s (int st)) (map int [0..<length (eu_game s)])
           = Inr (map (expected_utility ar s st) [0..<length (eu_game s)])"
proof -
  have "emap (expected_value ar s (int st)) (map int [0..<length (eu_game s)])
          = Inr (map (\<lambda>i. expected_utility ar s st (nat i)) (map int [0..<length (eu_game s)]))"
    by (rule emap_total) (auto simp add: expected_value_wf [OF assms(1) _ assms(2)])
  then show ?thesis by (simp add: comp_def)
qed

text \<open>
  C5. For a well-formed payoff model with an independent expected utility that is not
  NaN, \<^verbatim>\<open>get_decision\<close> of the Expected-Utility agent takes the independent design as
  the NaN-tolerant arg-max of the independent expected utilities and the collaborative
  design as the plain arg-max of the collaborative ones (each exists and is unique), and
  returns \<open>Decision 0\<close> with the independent design exactly when every collaborative
  expected utility is strictly less than the independent one chosen, \<open>Decision 1\<close> with
  the collaborative design otherwise. The expected utilities are the values the agent
  computed: the selections and the comparison read them as they are, whatever the
  arithmetic of the doubles made of the products, the sum and the exponential.
\<close>

theorem eu_get_decision_spec:
  fixes ar :: arith and s :: eu_attrs
  defines "iev \<equiv> map (expected_utility ar s 0) [0..<length (eu_game s)]"
    and "cev \<equiv> map (expected_utility ar s 1) [0..<length (eu_game s)]"
  assumes "wf_designs (eu_game s)" and "\<exists>x\<in>set iev. x \<noteq> NaN"
  shows "independent_expected_value ar s = Inr iev \<and> collab_expected_value ar s = Inr cev
    \<and> (\<exists>ind coll.
          nan_argmax iev ind \<and> (\<forall>i. nan_argmax iev i \<longrightarrow> i = ind)
        \<and> plain_argmax cev coll \<and> (\<forall>i. plain_argmax cev i \<longrightarrow> i = coll)
        \<and> eu_get_decision ar s =
            Inr (if \<forall>c\<in>set cev. fl_less c (iev ! ind) then Decision 0 (int ind)
                 else Decision 1 (int coll)))"
proof -
  have i: "independent_expected_value ar s = Inr iev"
    using expected_values_wf [OF assms(3), of 0 ar]
    by (simp add: independent_expected_value_def iev_def)
  have c: "collab_expected_value ar s = Inr cev"
    using expected_values_wf [OF assms(3), of 1 ar]
    by (simp add: collab_expected_value_def cev_def)
  from assms(4) have notall: "\<not> list_all (\<lambda>x. x = NaN) iev" by (simp add: list_all_iff)
  then obtain ind where ind: "np_nanargmax iev = Inr ind" and n: "nan_argmax iev ind"
    using np_nanargmax_tolerant by blast
  from assms(4) have "cev \<noteq> []" by (auto simp add: iev_def cev_def)
  then obtain coll where coll: "np_argmax cev = Inr coll" and p: "plain_argmax cev coll"
    using np_argmax_plain by blast
  have "eu_get_decision ar s =
            Inr (if \<forall>c\<in>set cev. fl_less c (iev ! ind) then Decision 0 (int ind)
                 else Decision 1 (int coll))"
    by (simp add: eu_get_decision_def i c ind coll ebind_def list_all_iff)
  with i c n p nan_argmax_unique plain_argmax_unique show ?thesis by blast
qed

theorem eu_get_decision_spec_witness:
  "eu_get_decision exact
     \<lparr>eu_game = [[[NaN, NaN], [NaN, NaN]], [[Fin 3, Fin 0], [Fin 5, Fin 1]]],
      eu_risk_aversion = 0, strategy_prior = [1, 1]\<rparr> = Inr (Decision 1 0)
   \<and> nan_argmax [NaN, Fin (3 / 2)] 1 \<and> plain_argmax [NaN, Fin 3] 0"
proof -
  let ?s = "\<lparr>eu_game = [[[NaN, NaN], [NaN, NaN]], [[Fin 3, Fin 0], [Fin 5, Fin 1]]],
             eu_risk_aversion = 0, strategy_prior = [1, 1]\<rparr>"
  have p: "p_collab ?s = Fin (1 / 2)" by (simp add: p_collab_def beta_mean_def)
  have upt2: "[0..<2] = [0, 1]" by (simp add: upt_rec)
  have iev: "map (expected_utility exact ?s 0) [0..<length (eu_game ?s)] = [NaN, Fin (3 / 2)]"
    by (simp add: upt2 expected_utility_def p get_utility_def fl_sub_def exact_def)
  have cev: "map (expected_utility exact ?s 1) [0..<length (eu_game ?s)] = [NaN, Fin 3]"
    by (simp add: upt2 expected_utility_def p get_utility_def fl_sub_def exact_def)
  have wf: "wf_designs (eu_game ?s)" by (simp add: wf_designs_def)
  have some: "\<exists>x\<in>set (map (expected_utility exact ?s 0) [0..<length (eu_game ?s)]). x \<noteq> NaN"
    unfolding iev by simp
  have a: "nan_argmax [NaN, Fin (3 / 2)] 1"
    by (simp add: nan_argmax_def first_max_def nan_to_minf_def less_Suc_eq all_conj_distrib)
  have b: "plain_argmax [NaN, Fin 3] 0"
    by (simp add: plain_argmax_def)
  from eu_get_decision_spec [OF wf some] obtain ind coll
    where "nan_argmax [NaN, Fin (3 / 2)] ind" and "plain_argmax [NaN, Fin 3] coll"
      and d: "eu_get_decision exact ?s =
            Inr (if \<forall>c\<in>set [NaN, Fin 3]. fl_less c ([NaN, Fin (3 / 2)] ! ind)
                 then Decision 0 (int ind) else Decision 1 (int coll))"
    unfolding iev cev by blast
  with a b have "ind = 1" and "coll = 0"
    using nan_argmax_unique plain_argmax_unique by blast+
  with d a b show ?thesis by simp
qed

section \<open>Properties of the Risk-Dominance agent\<close>

lemma fl_less_le_trans: "fl_less x y \<Longrightarrow> fl_le y z \<Longrightarrow> fl_less x z"
  by (cases x; cases y; cases z) auto

lemma fl_fmin_negative:
  "negative (fl_fmin x y) \<longleftrightarrow> negative x \<or> negative y"
  by (cases x; cases y) (auto simp add: fl_fmin_def negative_def)

lemma foldl_fmin_negative:
  "negative (foldl fl_fmin x ys) \<longleftrightarrow> negative x \<or> (\<exists>y\<in>set ys. negative y)"
  by (induction ys arbitrary: x) (auto simp add: fl_fmin_negative)

lemma np_nanmin_negative:
  assumes "xs \<noteq> []"
  shows "\<exists>lowest. np_nanmin xs = Inr lowest
           \<and> (negative lowest \<longleftrightarrow> (\<exists>d<length xs. negative (xs ! d)))"
proof -
  from assms obtain x ys where xs: "xs = x # ys" by (cases xs) auto
  have "(\<exists>d<length xs. negative (xs ! d)) \<longleftrightarrow> (\<exists>z\<in>set xs. negative z)"
    by (metis in_set_conv_nth)
  then show ?thesis
    using xs by (simp add: np_nanmin_def foldl_fmin_negative)
qed

lemma emap_length: "emap f xs = Inr ys \<Longrightarrow> length ys = length xs"
  by (induction xs arbitrary: ys) (auto split: sum.splits)

lemma masked_nth:
  assumes "i < length cv" and "length rd = length cv"
  shows "masked cv rd ! i = mask_times (cv ! i) (negative (rd ! i))"
  using assms by (simp add: masked_def negative_def)

lemma masked_finite:
  assumes "i < length cv" and "length rd = length cv" and "finite_fl (cv ! i)"
  shows "masked cv rd ! i = (if negative (rd ! i) then cv ! i else Fin 0)"
  using assms by (auto simp add: masked_nth finite_fl_def mask_times_def)

text \<open>
  With finite values, the first largest masked value is the restricted arg-max as soon
  as a design with a negative index has a positive value, and index 0 when no design has
  a negative index.
\<close>

lemma masked_restricted:
  assumes len: "length rd = length cv" and fin: "\<forall>d<length cv. finite_fl (cv ! d)"
    and fm: "first_max (masked cv rd) i"
    and pos: "(\<exists>d<length cv. negative (rd ! d) \<and> fl_less (Fin 0) (cv ! d))
              \<or> (\<forall>d<length cv. \<not> negative (rd ! d))"
  shows "restricted_argmax cv rd i"
proof -
  have ml: "length (masked cv rd) = length cv" using len by (simp add: masked_def)
  have m: "masked cv rd ! d = (if negative (rd ! d) then cv ! d else Fin 0)" if "d < length cv" for d
    using that len fin by (simp add: masked_finite)
  from fm ml have i: "i < length cv"
    and le: "\<forall>j<length cv. fl_le (masked cv rd ! j) (masked cv rd ! i)"
    and less: "\<forall>j<i. fl_less (masked cv rd ! j) (masked cv rd ! i)"
    by (simp_all add: first_max_def)
  show ?thesis
  proof (cases "\<exists>d<length rd. negative (rd ! d)")
    case False
    then have none: "\<forall>d<length cv. \<not> negative (rd ! d)" using len by simp
    have "i = 0"
    proof (rule ccontr)
      assume "i \<noteq> 0"
      then have "0 < i" by simp
      with less have "fl_less (masked cv rd ! 0) (masked cv rd ! i)" by simp
      moreover from i have "0 < length cv" by (cases cv) auto
      then have "masked cv rd ! 0 = Fin 0" using m [of 0] none by simp
      moreover have "masked cv rd ! i = Fin 0" using m [OF i] none i by simp
      ultimately show False by simp
    qed
    with False show ?thesis by (auto simp add: restricted_argmax_def)
  next
    case True
    with pos len obtain d where d: "d < length cv" "negative (rd ! d)" "fl_less (Fin 0) (cv ! d)"
      by auto
    from le d(1) have "fl_le (masked cv rd ! d) (masked cv rd ! i)" by blast
    moreover have md: "masked cv rd ! d = cv ! d" using m [OF d(1)] d(2) by simp
    ultimately have "fl_le (cv ! d) (masked cv rd ! i)" by simp
    with d(3) have "fl_less (Fin 0) (masked cv rd ! i)" by (rule fl_less_le_trans)
    then have ni: "negative (rd ! i)" using m [OF i] by (auto split: if_splits)
    then have mi: "masked cv rd ! i = cv ! i" using m [OF i] by simp
    have a: "\<forall>j<length cv. negative (rd ! j) \<longrightarrow> fl_le (cv ! j) (cv ! i)"
    proof (intro allI impI)
      fix j assume j: "j < length cv" and nj: "negative (rd ! j)"
      from le j have "fl_le (masked cv rd ! j) (masked cv rd ! i)" by blast
      moreover have "masked cv rd ! j = cv ! j" using m [OF j] nj by simp
      ultimately show "fl_le (cv ! j) (cv ! i)" using mi by simp
    qed
    have b: "\<forall>j<i. negative (rd ! j) \<longrightarrow> fl_less (cv ! j) (cv ! i)"
    proof (intro allI impI)
      fix j assume ji: "j < i" and nj: "negative (rd ! j)"
      from ji i have j: "j < length cv" by simp
      from less ji have "fl_less (masked cv rd ! j) (masked cv rd ! i)" by blast
      moreover have "masked cv rd ! j = cv ! j" using m [OF j] nj by simp
      ultimately show "fl_less (cv ! j) (cv ! i)" using mi by simp
    qed
    from True a b ni i show ?thesis by (simp add: restricted_argmax_def)
  qed
qed

lemmas rd_index_eval = rd_risk_dominance_def get_risk_dominance_def log_ratio_def
  utility_div_def py_div_def get_utility_def get_payoff_def py_index_def ebind_def
  Decision_def fl_sub_def Let_def exact_def mask_times_def

lemma rd_values_wf:
  assumes "wf_designs (rd_game s)" and "st < 2"
  shows "emap (\<lambda>d. ebind (get_payoff (rd_game s) (Decision (int st) d) (Decision (int st) 0))
                  (\<lambda>v. Inr (get_utility ar (rd_risk_aversion s) v)))
           (map int [0..<length (rd_game s)])
         = Inr (map (\<lambda>d. get_utility ar (rd_risk_aversion s) (rd_game s ! d ! st ! st))
                  [0..<length (rd_game s)])"
proof -
  have one: "ebind (get_payoff (rd_game s) (Decision (int st) (int d)) (Decision (int st) 0))
                  (\<lambda>v. Inr (get_utility ar (rd_risk_aversion s) v))
             = Inr (get_utility ar (rd_risk_aversion s) (rd_game s ! d ! st ! st))"
    if "d < length (rd_game s)" for d
  proof -
    have v: "valid (rd_game s) (Decision (int st) (int d))"
      and w: "valid (rd_game s) (Decision (int st) 0)"
      using that assms(2) by (auto simp add: valid_def Decision_def)
    show ?thesis
      using get_payoff_valid [OF assms(1) v w] by (simp add: ebind_def Decision_def)
  qed
  have "emap (\<lambda>d. ebind (get_payoff (rd_game s) (Decision (int st) d) (Decision (int st) 0))
                  (\<lambda>v. Inr (get_utility ar (rd_risk_aversion s) v)))
           (map int [0..<length (rd_game s)])
         = Inr (map (\<lambda>i. get_utility ar (rd_risk_aversion s) (rd_game s ! nat i ! st ! st))
                  (map int [0..<length (rd_game s)]))"
    by (rule emap_total) (auto simp add: one)
  then show ?thesis by (simp add: comp_def)
qed

lemma masked_no_nan:
  assumes "length rd = length cv" and "\<forall>d<length cv. finite_fl (cv ! d)"
  shows "NaN \<notin> set (masked cv rd)"
proof
  assume "NaN \<in> set (masked cv rd)"
  then obtain i where i: "i < length (masked cv rd)" and n: "masked cv rd ! i = NaN"
    by (auto simp add: in_set_conv_nth)
  from i assms(1) have "i < length cv" by (simp add: masked_def)
  with assms n show False by (auto simp add: masked_finite finite_fl_def split: if_splits)
qed

lemma log_ratio_total:
  assumes "wf_designs (rd_game s)" and "rd_risk_aversion s \<noteq> 0"
    and "0 \<le> cd" and "cd < int (length (rd_game s))" and "ind < length (rd_game s)"
  shows "\<exists>l. log_ratio ar s cd (int ind) = Inr l"
proof -
  have v: "valid (rd_game s) (Decision 0 (int ind))" "valid (rd_game s) (Decision 1 cd)"
    "valid (rd_game s) (Decision 0 0)" "valid (rd_game s) (Decision 1 0)"
    using assms(3,4,5) by (auto simp add: valid_def Decision_def)
  note p = get_payoff_valid [OF assms(1)]
  show ?thesis
    using assms(2)
    by (simp add: log_ratio_def Let_def ebind_def utility_div_def
        p [OF v(1) v(3)] p [OF v(2) v(3)] p [OF v(2) v(4)] p [OF v(1) v(4)])
qed

text \<open>
  With a risk aversion other than 0 the indices are always computed: the quotients are
  divisions of numpy floats.
\<close>

lemma rd_risk_dominance_total:
  assumes "wf_designs (rd_game s)" and "rd_risk_aversion s \<noteq> 0"
    and "ind < length (rd_game s)"
    and "their_prior_decision s = None
         \<or> (\<exists>prior. their_prior_decision s = Some prior \<and> valid (rd_game s) prior)"
  shows "\<exists>rd. rd_risk_dominance ar s ind = Inr rd"
proof -
  have one: "\<exists>r. get_risk_dominance ar s (int d) (int ind) = Inr r" if "d < length (rd_game s)" for d
  proof -
    from that obtain la where la: "log_ratio ar s (int d) (int ind) = Inr la"
      using log_ratio_total [OF assms(1,2) _ _ assms(3), where cd = "int d" and ar = ar] by auto
    let ?cd = "case their_prior_decision s of Some prior \<Rightarrow> design prior | None \<Rightarrow> int d"
    have "0 \<le> ?cd \<and> ?cd < int (length (rd_game s))"
      using assms(4) that by (auto simp add: valid_def)
    then obtain lb where lb: "log_ratio ar s ?cd (int ind) = Inr lb"
      using log_ratio_total [OF assms(1,2) _ _ assms(3), where cd = ?cd and ar = ar] by auto
    show ?thesis by (simp add: get_risk_dominance_def la lb ebind_def)
  qed
  define g where "g = (\<lambda>i. projr (get_risk_dominance ar s i (int ind)))"
  have "emap (\<lambda>d. get_risk_dominance ar s d (int ind)) (map int [0..<length (rd_game s)])
          = Inr (map g (map int [0..<length (rd_game s)]))"
  proof (rule emap_total, intro ballI)
    fix x assume "x \<in> set (map int [0..<length (rd_game s)])"
    then obtain d where "x = int d" and "d < length (rd_game s)" by auto
    with one [of d] show "get_risk_dominance ar s x (int ind) = Inr (g x)"
      by (auto simp add: g_def)
  qed
  then show ?thesis by (simp add: rd_risk_dominance_def)
qed

text \<open>
  C4 (amended). For a well-formed payoff model, the independent design being the
  NaN-tolerant arg-max of the utilities of the strategy-0-against-0 payoffs and the
  risk-dominance indices being computed, \<^verbatim>\<open>get_decision\<close> of the Risk-Dominance agent
  takes the collaborative design as the plain arg-max of the masked values (the
  collaborative value where the index is negative, that value times 0 elsewhere). It
  returns \<open>Decision 1\<close> with it when the NaN-aware minimum of the indices is negative, that
  is when some index is negative, and \<open>Decision 0\<close> with the independent design otherwise.
  For finite collaborative values the collaborative design is the arg-max restricted to
  the designs with a negative index when one of these has a positive value, and index 0
  when no index is negative. The utilities and the indices are the values the agent
  computed: the selections and the sign tests read them as they are, whatever the
  arithmetic of the doubles made of the exponentials, quotients, logarithms and sums.
\<close>

theorem rd_get_decision_spec:
  fixes ar :: arith and s :: rd_attrs
  defines "iv \<equiv> map (\<lambda>d. get_utility ar (rd_risk_aversion s) (rd_game s ! d ! 0 ! 0))
                  [0..<length (rd_game s)]"
    and "cv \<equiv> map (\<lambda>d. get_utility ar (rd_risk_aversion s) (rd_game s ! d ! 1 ! 1))
                  [0..<length (rd_game s)]"
  assumes "wf_designs (rd_game s)" and "nan_argmax iv ind"
    and "rd_risk_dominance ar s ind = Inr rd"
  shows "rd_independent_value ar s = Inr iv \<and> rd_collaborative_value ar s = Inr cv
    \<and> length rd = length cv
    \<and> (\<exists>lowest. np_nanmin rd = Inr lowest
          \<and> (negative lowest \<longleftrightarrow> (\<exists>d<length rd. negative (rd ! d))))
    \<and> (\<exists>coll. plain_argmax (masked cv rd) coll
          \<and> rd_get_decision ar s =
              Inr (if \<exists>d<length rd. negative (rd ! d) then Decision 1 (int coll)
                   else Decision 0 (int ind))
          \<and> ((\<forall>d<length cv. finite_fl (cv ! d))
               \<and> ((\<exists>d<length cv. negative (rd ! d) \<and> fl_less (Fin 0) (cv ! d))
                    \<or> (\<forall>d<length cv. \<not> negative (rd ! d)))
               \<longrightarrow> restricted_argmax cv rd coll))"
proof -
  have i: "rd_independent_value ar s = Inr iv"
    using rd_values_wf [OF assms(3), of 0 ar] by (simp add: rd_independent_value_def iv_def)
  have c: "rd_collaborative_value ar s = Inr cv"
    using rd_values_wf [OF assms(3), of 1 ar] by (simp add: rd_collaborative_value_def cv_def)
  from assms(4) have "\<not> list_all (\<lambda>x. x = NaN) iv"
    by (simp add: nan_argmax_def list_all_iff)
  then obtain k where "np_nanargmax iv = Inr k" and "nan_argmax iv k"
    using np_nanargmax_tolerant by blast
  with assms(4) have a: "np_nanargmax iv = Inr ind"
    using nan_argmax_unique by blast
  from assms(4) have ne: "0 < length (rd_game s)"
    by (auto simp add: nan_argmax_def iv_def)
  have len: "length rd = length cv"
    using emap_length [OF assms(5) [unfolded rd_risk_dominance_def]] by (simp add: cv_def)
  then have "masked cv rd \<noteq> []" and rne: "rd \<noteq> []"
    using ne by (auto simp add: masked_def cv_def)
  then obtain coll where m: "np_argmax (masked cv rd) = Inr coll"
    and p: "plain_argmax (masked cv rd) coll"
    using np_argmax_plain by blast
  obtain lowest where l: "np_nanmin rd = Inr lowest"
    and n: "negative lowest \<longleftrightarrow> (\<exists>d<length rd. negative (rd ! d))"
    using np_nanmin_negative [OF rne] by blast
  have d: "rd_get_decision ar s =
              Inr (if \<exists>d<length rd. negative (rd ! d) then Decision 1 (int coll)
                   else Decision 0 (int ind))"
    using n by (simp add: rd_get_decision_def i a assms(5) c m l ebind_def negative_def)
  have r: "restricted_argmax cv rd coll"
    if "\<forall>d<length cv. finite_fl (cv ! d)"
      and "(\<exists>d<length cv. negative (rd ! d) \<and> fl_less (Fin 0) (cv ! d))
                    \<or> (\<forall>d<length cv. \<not> negative (rd ! d))"
  proof -
    from p masked_no_nan [OF len that(1)] have "first_max (masked cv rd) coll"
      by (simp add: plain_argmax_def)
    from masked_restricted [OF len that(1) this that(2)] show ?thesis .
  qed
  from i c len l n p d r show ?thesis by blast
qed

lemma upt_2: "[0..<2] = [0, 1]"
  by (simp add: upt_rec)

text \<open>
  An input on which the collaborative design is not the restricted arg-max: design 0 has
  the index \<open>ln 2\<close> and the collaborative value \<open>- 2\<close>, design 1 the index \<open>ln (1 / 2)\<close>
  and the value \<open>- 1\<close>. The masked values are 0 and \<open>- 1\<close>, so design 0 is returned, whose
  index is not negative. The payoffs are small integers: their differences and the
  quotients 2 and \<open>1 / 2\<close> do not round, and the two logarithms keep their signs.
\<close>

theorem rd_get_decision_spec_counterexample:
  "rd_get_decision exact
     \<lparr>rd_game = [[[Fin 0, Fin (- 5)], [Fin (- 6), Fin (- 2)]],
                 [[Fin (- 10), Fin 0], [Fin (- 2), Fin (- 1)]]],
      rd_risk_aversion = 0, their_prior_decision = None\<rparr> = Inr (Decision 1 0)
   \<and> rd_risk_dominance exact
     \<lparr>rd_game = [[[Fin 0, Fin (- 5)], [Fin (- 6), Fin (- 2)]],
                 [[Fin (- 10), Fin 0], [Fin (- 2), Fin (- 1)]]],
      rd_risk_aversion = 0, their_prior_decision = None\<rparr> 0
       = Inr [Fin (ln 2), Fin (ln (1 / 2))]
   \<and> rd_collaborative_value exact
     \<lparr>rd_game = [[[Fin 0, Fin (- 5)], [Fin (- 6), Fin (- 2)]],
                 [[Fin (- 10), Fin 0], [Fin (- 2), Fin (- 1)]]],
      rd_risk_aversion = 0, their_prior_decision = None\<rparr> = Inr [Fin (- 2), Fin (- 1)]
   \<and> \<not> negative (Fin (ln 2)) \<and> negative (Fin (ln (1 / 2)))
   \<and> \<not> restricted_argmax [Fin (- 2), Fin (- 1)] [Fin (ln 2), Fin (ln (1 / 2))] 0
   \<and> restricted_argmax [Fin (- 2), Fin (- 1)] [Fin (ln 2), Fin (ln (1 / 2))] 1"
proof -
  let ?s = "\<lparr>rd_game = [[[Fin 0, Fin (- 5)], [Fin (- 6), Fin (- 2)]],
                 [[Fin (- 10), Fin 0], [Fin (- 2), Fin (- 1)]]],
      rd_risk_aversion = 0, their_prior_decision = None\<rparr>"
  have iv: "rd_independent_value exact ?s = Inr [Fin 0, Fin (- 10)]"
    by (simp add: rd_independent_value_def upt_2 get_payoff_def py_index_def ebind_def
        Decision_def get_utility_def)
  have ind: "np_nanargmax [Fin 0, Fin (- 10)] = Inr 0"
    by (simp add: np_nanargmax_def np_argmax_def nan_to_minf_def)
  have rd: "rd_risk_dominance exact ?s 0 = Inr [Fin (ln 2), Fin (ln (1 / 2))]"
    by (simp add: rd_index_eval upt_2)
  have cv: "rd_collaborative_value exact ?s = Inr [Fin (- 2), Fin (- 1)]"
    by (simp add: rd_collaborative_value_def upt_2 get_payoff_def py_index_def ebind_def
        Decision_def get_utility_def)
  have n0: "\<not> negative (Fin (ln 2))" and n1: "negative (Fin (ln (1 / 2)))"
    by (simp_all add: negative_def)
  have m: "masked [Fin (- 2), Fin (- 1)] [Fin (ln 2), Fin (ln (1 / 2))] = [Fin 0, Fin (- 1)]"
    using n0 n1 by (simp add: masked_def negative_def mask_times_def)
  have coll: "np_argmax [Fin 0, Fin (- 1)] = Inr 0"
    by (simp add: np_argmax_def)
  have low: "np_nanmin [Fin (ln 2), Fin (ln (1 / 2))] = Inr (Fin (ln (1 / 2)))"
    by (simp add: np_nanmin_def fl_fmin_def)
  have dec: "rd_get_decision exact ?s = Inr (Decision 1 0)"
    using n1 by (simp add: rd_get_decision_def iv ind rd cv m coll low ebind_def negative_def)
  have ex: "\<exists>d<length [Fin (ln 2), Fin (ln (1 / 2))]. negative ([Fin (ln 2), Fin (ln (1 / 2))] ! d)"
    using n1 by (intro exI [of _ 1]) simp
  have r0: "\<not> restricted_argmax [Fin (- 2), Fin (- 1)] [Fin (ln 2), Fin (ln (1 / 2))] 0"
    using ex n0 unfolding restricted_argmax_def by simp
  have r1: "restricted_argmax [Fin (- 2), Fin (- 1)] [Fin (ln 2), Fin (ln (1 / 2))] 1"
    using ex n0 n1 unfolding restricted_argmax_def by (simp add: less_Suc_eq)
  from dec rd cv n0 n1 r0 r1 show ?thesis by blast
qed

theorem rd_get_decision_spec_witness:
  "rd_get_decision exact
     \<lparr>rd_game = [[[Fin 3, Fin 3], [Fin 0, Fin 5]], [[Fin 2, Fin 2], [Fin 0, Fin 8]]],
      rd_risk_aversion = 0, their_prior_decision = None\<rparr> = Inr (Decision 1 1)
   \<and> restricted_argmax [Fin 5, Fin 8] [Fin (ln (3 / 2)), Fin (ln (3 / 5))] 1"
proof -
  let ?s = "\<lparr>rd_game = [[[Fin 3, Fin 3], [Fin 0, Fin 5]], [[Fin 2, Fin 2], [Fin 0, Fin 8]]],
      rd_risk_aversion = 0, their_prior_decision = None\<rparr>"
  let ?rd = "[Fin (ln (3 / 2)), Fin (ln (3 / 5))]"
  have wf: "wf_designs (rd_game ?s)" by (simp add: wf_designs_def)
  have iv: "map (\<lambda>d. get_utility exact (rd_risk_aversion ?s) (rd_game ?s ! d ! 0 ! 0))
              [0..<length (rd_game ?s)] = [Fin 3, Fin 2]"
    by (simp add: upt_2 get_utility_def)
  have cv: "map (\<lambda>d. get_utility exact (rd_risk_aversion ?s) (rd_game ?s ! d ! 1 ! 1))
              [0..<length (rd_game ?s)] = [Fin 5, Fin 8]"
    by (simp add: upt_2 get_utility_def)
  have ind: "nan_argmax (map (\<lambda>d. get_utility exact (rd_risk_aversion ?s) (rd_game ?s ! d ! 0 ! 0))
              [0..<length (rd_game ?s)]) 0"
    unfolding iv by (simp add: nan_argmax_def first_max_def nan_to_minf_def less_Suc_eq)
  have rd: "rd_risk_dominance exact ?s 0 = Inr ?rd"
    by (simp add: rd_index_eval upt_2)
  have n0: "\<not> negative (Fin (ln (3 / 2)))" and n1: "negative (Fin (ln (3 / 5)))"
    by (simp_all add: negative_def)
  have ex: "\<exists>d<length ?rd. negative (?rd ! d)"
    using n1 by (intro exI [of _ 1]) simp
  have pos: "\<exists>d<length [Fin 5, Fin 8]. negative (?rd ! d) \<and> fl_less (Fin 0) ([Fin 5, Fin 8] ! d)"
    using n1 by (intro exI [of _ 1]) simp
  have fin: "\<forall>d<length [Fin 5, Fin 8]. finite_fl ([Fin 5, Fin 8] ! d)"
    by (simp add: finite_fl_def less_Suc_eq)
  note spec = rd_get_decision_spec [OF wf ind rd, unfolded cv]
  from spec have "\<exists>coll. plain_argmax (masked [Fin 5, Fin 8] ?rd) coll
      \<and> rd_get_decision exact ?s =
              Inr (if \<exists>d<length ?rd. negative (?rd ! d) then Decision 1 (int coll)
                   else Decision 0 (int 0))
      \<and> ((\<forall>d<length [Fin 5, Fin 8]. finite_fl ([Fin 5, Fin 8] ! d))
               \<and> ((\<exists>d<length [Fin 5, Fin 8]. negative (?rd ! d) \<and> fl_less (Fin 0) ([Fin 5, Fin 8] ! d))
                    \<or> (\<forall>d<length [Fin 5, Fin 8]. \<not> negative (?rd ! d)))
               \<longrightarrow> restricted_argmax [Fin 5, Fin 8] ?rd coll)"
    by (elim conjE)
  then obtain coll
    where p: "plain_argmax (masked [Fin 5, Fin 8] ?rd) coll"
      and d: "rd_get_decision exact ?s =
              Inr (if \<exists>d<length ?rd. negative (?rd ! d) then Decision 1 (int coll)
                   else Decision 0 (int 0))"
      and r: "(\<forall>d<length [Fin 5, Fin 8]. finite_fl ([Fin 5, Fin 8] ! d))
               \<and> ((\<exists>d<length [Fin 5, Fin 8]. negative (?rd ! d) \<and> fl_less (Fin 0) ([Fin 5, Fin 8] ! d))
                    \<or> (\<forall>d<length [Fin 5, Fin 8]. \<not> negative (?rd ! d)))
               \<longrightarrow> restricted_argmax [Fin 5, Fin 8] ?rd coll"
    by (elim exE conjE)
  have m: "masked [Fin 5, Fin 8] ?rd = [Fin 0, Fin 8]"
    using n0 n1 by (simp add: masked_def negative_def mask_times_def)
  have "plain_argmax [Fin 0, Fin 8] 1"
    by (simp add: plain_argmax_def first_max_def less_Suc_eq)
  with p m have c1: "coll = 1" using plain_argmax_unique by auto
  from r fin pos have "restricted_argmax [Fin 5, Fin 8] ?rd coll" by blast
  moreover from d ex have "rd_get_decision exact ?s = Inr (Decision 1 (int coll))" by simp
  ultimately show ?thesis using c1 by simp
qed

end
